theory Spec2Isabelle
  imports Complex_Main "HOL-Library.Char_ord" "HOL-Library.List_Lexorder"
begin

section \<open>Values, cells and exceptions\<close>

text \<open>
  The development embeds \<open>task3.py\<close> (preparation of the sensor readings) and \<open>task2.py\<close>
  (preprocessing of the financial series).  Both scripts are straight-line pandas code;
  each pandas call is modelled by a function on lists that computes what the call
  computes on a frame whose row labels are \<open>0 .. n-1\<close>.

  A numeric entry of a pandas column is a float that is either a finite number or
  missing (NaN).  It is modelled as \<open>real option\<close> with \<open>None\<close> for NaN; arithmetic on
  the finite part is exact (no rounding, no overflow), and a reading is never infinite.
  A CSV cell, before \<open>pd.to_numeric(errors='coerce')\<close>, is a number, a text that is not a
  number, or empty.
\<close>

type_synonym num = "real option"

datatype cell = Num real | Text string | Empty

text \<open>A raised Python exception: its class name and its argument.\<close>

type_synonym exn = "string \<times> string"

fun to_numeric :: "cell \<Rightarrow> num" where
  "to_numeric (Num r) = Some r"
| "to_numeric (Text s) = None"
| "to_numeric Empty = None"

definition num_sub :: "num \<Rightarrow> num \<Rightarrow> num" where
  "num_sub a b = (case a of None \<Rightarrow> None | Some x \<Rightarrow> (case b of None \<Rightarrow> None | Some y \<Rightarrow> Some (x - y)))"

section \<open>Series reductions (pandas defaults: missing entries are skipped)\<close>

definition dropna :: "num list \<Rightarrow> real list" where
  "dropna xs = List.map_filter (\<lambda>x. x) xs"

definition mean :: "num list \<Rightarrow> num" where
  "mean xs = (let vs = dropna xs in
     if vs = [] then None else Some (sum_list vs / real (length vs)))"

definition median :: "num list \<Rightarrow> num" where
  "median xs = (let s = sort (dropna xs); n = length s in
     if n = 0 then None
     else if odd n then Some (s ! (n div 2))
     else Some ((s ! (n div 2 - 1) + s ! (n div 2)) / 2))"

text \<open>\<open>Series.std(ddof=0)\<close>: the population standard deviation of the present entries.\<close>

definition std :: "num list \<Rightarrow> num" where
  "std xs = (let vs = dropna xs in
     if vs = [] then None
     else let m = sum_list vs / real (length vs) in
       Some (sqrt (sum_list (map (\<lambda>v. (v - m)\<^sup>2) vs) / real (length vs))))"

section \<open>Forward fill and rolling mean\<close>

fun ffill_from :: "num \<Rightarrow> num list \<Rightarrow> num list" where
  "ffill_from prev [] = []"
| "ffill_from prev (None # xs) = prev # ffill_from prev xs"
| "ffill_from prev (Some v # xs) = Some v # ffill_from (Some v) xs"

definition ffill :: "num list \<Rightarrow> num list" where
  "ffill xs = ffill_from None xs"

text \<open>
  \<open>s.rolling(window=w, min_periods=p).mean()\<close>: at row \<open>i\<close> the window holds the rows
  \<open>i - w + 1 .. i\<close> that exist; the result is the mean of the window's present entries
  when there are at least \<open>p\<close> (and at least one) of them, and missing otherwise.
\<close>

definition window_at :: "nat \<Rightarrow> num list \<Rightarrow> nat \<Rightarrow> num list" where
  "window_at w xs i = drop (Suc i - w) (take (Suc i) xs)"

definition rolling_mean :: "nat \<Rightarrow> nat \<Rightarrow> num list \<Rightarrow> num list" where
  "rolling_mean w p xs =
     map (\<lambda>i. if p \<le> length (dropna (window_at w xs i)) then mean (window_at w xs i) else None)
       [0..<length xs]"

definition ROLL_WINDOW :: nat where
  "ROLL_WINDOW = 6"

text \<open>\<open>remove_drift(group, col, window)\<close> returns \<open>(detrended, roll)\<close>.\<close>

definition remove_drift :: "num list \<Rightarrow> nat \<Rightarrow> num list \<times> num list" where
  "remove_drift g w = (let roll = rolling_mean w 1 g;
                           detrended = map2 num_sub g roll
                       in (detrended, roll))"

section \<open>Group-by, indexed series and column assignment\<close>

text \<open>
  After \<open>reset_index(drop=True)\<close> the row labels are \<open>0 .. n-1\<close>.  \<open>group_index keys k\<close> is
  \<open>g.index\<close> of the group of key \<open>k\<close>; \<open>groupby\<close> lists the groups in sorted key order;
  \<open>take_rows col idx\<close> is the column of a group.
\<close>

definition group_index :: "'k list \<Rightarrow> 'k \<Rightarrow> nat list" where
  "group_index keys k = filter (\<lambda>i. keys ! i = k) [0..<length keys]"

definition groupby :: "('k::linorder) list \<Rightarrow> ('k \<times> nat list) list" where
  "groupby keys = map (\<lambda>k. (k, group_index keys k)) (sort (remdups keys))"

definition take_rows :: "'a list \<Rightarrow> nat list \<Rightarrow> 'a list" where
  "take_rows col idx = map (\<lambda>i. col ! i) idx"

type_synonym series = "(nat \<times> num) list"

definition pd_concat :: "series list \<Rightarrow> exn + series" where
  "pd_concat ss = (if ss = [] then Inl (''ValueError'', ''No objects to concatenate'')
                   else Inr (concat ss))"

definition sort_index :: "series \<Rightarrow> series" where
  "sort_index s = sort_key fst s"

text \<open>\<open>df[col] = s\<close> on a frame of \<open>n\<close> rows: aligned on the index, missing where \<open>s\<close> has no entry.\<close>

definition set_column :: "nat \<Rightarrow> series \<Rightarrow> num list" where
  "set_column n s = map (\<lambda>i. case map_of s i of None \<Rightarrow> None | Some v \<Rightarrow> v) [0..<n]"

text \<open>\<open>df.loc[idx, col] = vals\<close>: the rows of \<open>idx\<close> take the aligned entries, the others stay.\<close>

definition loc_assign :: "num list \<Rightarrow> nat list \<Rightarrow> num list \<Rightarrow> num list" where
  "loc_assign col idx vals =
     map (\<lambda>i. case map_of (zip idx vals) i of None \<Rightarrow> col ! i | Some v \<Rightarrow> v) [0..<length col]"

text \<open>
  \<open>df.groupby(key)[col].<f>()\<close> for a transformation \<open>f\<close> of a group's column (\<open>ffill\<close>,
  \<open>transform('median')\<close>): the result is aligned with the frame's index.
\<close>

definition groupby_transform :: "(num list \<Rightarrow> num list) \<Rightarrow> ('k::linorder) list \<Rightarrow> num list \<Rightarrow> num list" where
  "groupby_transform f keys col =
     set_column (length keys)
       (concat (map (\<lambda>(k, idx). zip idx (f (take_rows col idx))) (groupby keys)))"

definition transform_median :: "num list \<Rightarrow> num list" where
  "transform_median g = replicate (length g) (median g)"

section \<open>The steps of task3.py\<close>

text \<open>Lines 46-53: forward fill per sensor, then the sensor's median where still missing.\<close>

definition fill_median :: "('k::linorder) list \<Rightarrow> num list \<Rightarrow> num list" where
  "fill_median keys col =
     (let mask_null = map (\<lambda>x. x = None) col in
      if list_ex (\<lambda>b. b) mask_null then
        let medians = groupby_transform transform_median keys col in
        map (\<lambda>(m, x, md). if m then md else x) (zip mask_null (zip col medians))
      else col)"

definition impute_column :: "('k::linorder) list \<Rightarrow> num list \<Rightarrow> num list" where
  "impute_column keys col = fill_median keys (groupby_transform ffill keys col)"

text \<open>Lines 69-86: the loop over the sensors, \<open>pd.concat\<close> and \<open>sort_index\<close>; \<open>(roll, detrended)\<close>.\<close>

definition drift_columns :: "('k::linorder) list \<Rightarrow> num list \<Rightarrow> exn + (num list \<times> num list)" where
  "drift_columns keys col =
     (let res = map (\<lambda>(k, idx). (idx, remove_drift (take_rows col idx) ROLL_WINDOW)) (groupby keys);
          detrended_list = map (\<lambda>(idx, det, roll). zip idx det) res;
          roll_list = map (\<lambda>(idx, det, roll). zip idx roll) res
      in case pd_concat roll_list of
           Inl e \<Rightarrow> Inl e
         | Inr r \<Rightarrow> (case pd_concat detrended_list of
             Inl e \<Rightarrow> Inl e
           | Inr d \<Rightarrow> Inr (set_column (length keys) (sort_index r),
                           set_column (length keys) (sort_index d))))"

text \<open>Lines 90-107: the z-score of a group's detrended column, and the loop over the sensors.\<close>

definition zscore_group :: "num list \<Rightarrow> num list" where
  "zscore_group d =
     (let t_mean = mean d; t_std = std d in
      case t_std of
        None \<Rightarrow> replicate (length d) (Some 0)
      | Some s \<Rightarrow> if s = 0 then replicate (length d) (Some 0)
                  else map (\<lambda>x. map_option (\<lambda>v. v / s) (num_sub x t_mean)) d)"

definition zscore_column :: "('k::linorder) list \<Rightarrow> num list \<Rightarrow> num list" where
  "zscore_column keys det =
     fold (\<lambda>(k, idx) z. loc_assign z idx (zscore_group (take_rows det idx)))
       (groupby keys) (replicate (length keys) None)"

text \<open>Lines 111-112: \<open>pd.factorize\<close> (codes in order of first appearance) and \<open>pd.get_dummies\<close>.\<close>

fun index_of :: "'a list \<Rightarrow> 'a \<Rightarrow> int" where
  "index_of [] k = 0"
| "index_of (x # xs) k = (if x = k then 0 else 1 + index_of xs k)"

definition factorize :: "'a list \<Rightarrow> int list" where
  "factorize keys = map (index_of (rev (remdups (rev keys)))) keys"

definition get_dummies :: "string \<Rightarrow> string list \<Rightarrow> (string \<times> bool list) list" where
  "get_dummies prefix keys =
     map (\<lambda>k. (prefix @ ''_'' @ k, map (\<lambda>x. x = k) keys)) (sort (remdups keys))"

section \<open>The frame and the script\<close>

text \<open>
  The input frame is the CSV's header and its rows.  A reading carries the timestamp
  (an instant, as \<open>pd.to_datetime\<close> parses it), the sensor identifier (always present) and
  the two measured cells; a column can be read only when its name is in the header,
  otherwise \<open>df[name]\<close> raises \<open>KeyError\<close>, and a field of a reading is meaningful only for
  a column of the header.
\<close>

record reading =
  timestamp :: int
  sensor_id :: string
  temperature :: cell
  humidity :: cell

record frame =
  columns :: "string list"
  rows :: "reading list"

definition getitem :: "string list \<Rightarrow> string \<Rightarrow> exn + unit" where
  "getitem header name = (if name \<in> set header then Inr () else Inl (''KeyError'', name))"


definition sort_values :: "(int list \<Rightarrow> nat list) \<Rightarrow> reading list \<Rightarrow> reading list" where
  "sort_values argsort rs = map (\<lambda>i. rs ! i) (argsort (map timestamp rs))"

record prepared =
  c_timestamp :: "int list"
  c_sensor_id :: "string list"
  c_sensor_label :: "int list"
  c_temperature_raw :: "num list"
  c_humidity_raw :: "num list"
  c_temperature :: "num list"
  c_humidity :: "num list"
  c_temperature_roll_mean :: "num list"
  c_humidity_roll_mean :: "num list"
  c_temperature_detrended :: "num list"
  c_humidity_detrended :: "num list"
  c_temperature_z :: "num list"
  c_humidity_z :: "num list"
  c_one_hot :: "(string \<times> bool list) list"

text \<open>
  The part of the script after the columns have been read: the sorted rows \<open>rs\<close>, the
  coerced measurements and the sensor identifiers.
\<close>

definition normalize_sensors :: "int list \<Rightarrow> string list \<Rightarrow> num list \<Rightarrow> num list \<Rightarrow> exn + prepared" where
  "normalize_sensors ts ids temperature_raw humidity_raw =
     (let temp = impute_column ids temperature_raw;
          hum = impute_column ids humidity_raw
      in case drift_columns ids temp of
           Inl e \<Rightarrow> Inl e
         | Inr (roll_temp, det_temp) \<Rightarrow>
            (case drift_columns ids hum of
               Inl e \<Rightarrow> Inl e
             | Inr (roll_hum, det_hum) \<Rightarrow>
                Inr \<lparr> c_timestamp = ts, c_sensor_id = ids,
                      c_sensor_label = factorize ids,
                      c_temperature_raw = temperature_raw, c_humidity_raw = humidity_raw,
                      c_temperature = temp, c_humidity = hum,
                      c_temperature_roll_mean = roll_temp, c_humidity_roll_mean = roll_hum,
                      c_temperature_detrended = det_temp, c_humidity_detrended = det_hum,
                      c_temperature_z = zscore_column ids det_temp,
                      c_humidity_z = zscore_column ids det_hum,
                      c_one_hot = get_dummies ''sensor'' ids \<rparr>))"

text \<open>The statements of the script up to the first grouped operation, as stages.\<close>

definition parse_and_sort :: "(int list \<Rightarrow> nat list) \<Rightarrow> frame \<Rightarrow> exn + reading list" where
  "parse_and_sort argsort df =
     (case getitem (columns df) ''timestamp'' of
        Inl e \<Rightarrow> Inl e
      | Inr _ \<Rightarrow> Inr (sort_values argsort (rows df)))"

definition ensure_numeric :: "frame \<Rightarrow> reading list \<Rightarrow> exn + (num list \<times> num list)" where
  "ensure_numeric df rs =
     (case getitem (columns df) ''temperature'' of
        Inl e \<Rightarrow> Inl e
      | Inr _ \<Rightarrow>
         (case getitem (columns df) ''humidity'' of
            Inl e \<Rightarrow> Inl e
          | Inr _ \<Rightarrow> Inr (map (\<lambda>r. to_numeric (temperature r)) rs,
                           map (\<lambda>r. to_numeric (humidity r)) rs)))"

definition prepare :: "(int list \<Rightarrow> nat list) \<Rightarrow> frame \<Rightarrow> exn + prepared" where
  "prepare argsort df =
     (case parse_and_sort argsort df of
        Inl e \<Rightarrow> Inl e
      | Inr rs \<Rightarrow>
         (case ensure_numeric df rs of
            Inl e \<Rightarrow> Inl e
          | Inr (temperature_raw, humidity_raw) \<Rightarrow>
             (case getitem (columns df) ''sensor_id'' of
                Inl e \<Rightarrow> Inl e
              | Inr _ \<Rightarrow>
                 normalize_sensors (map timestamp rs) (map sensor_id rs) temperature_raw humidity_raw)))"

section \<open>task2.py: the financial series\<close>

text \<open>
  The results of the unguarded division of \<open>pct_change\<close> and of \<open>np.log1p\<close> can leave the
  finite numbers: they are IEEE values with both infinities and NaN, computed exactly on
  the finite part.  The sign of a zero is not modelled: a zero is \<open>+0.0\<close>.
\<close>

datatype fl = Fin real | PInf | NInf | NaN

definition fl_div :: "num \<Rightarrow> num \<Rightarrow> fl" where
  "fl_div a b =
     (case a of None \<Rightarrow> NaN
      | Some x \<Rightarrow> (case b of None \<Rightarrow> NaN
         | Some y \<Rightarrow> if y \<noteq> 0 then Fin (x / y)
                     else if 0 < x then PInf else if x < 0 then NInf else NaN))"

fun fl_sub_real :: "fl \<Rightarrow> real \<Rightarrow> fl" where
  "fl_sub_real (Fin r) c = Fin (r - c)"
| "fl_sub_real PInf c = PInf"
| "fl_sub_real NInf c = NInf"
| "fl_sub_real NaN c = NaN"

definition np_log1p :: "num \<Rightarrow> fl" where
  "np_log1p a =
     (case a of None \<Rightarrow> NaN
      | Some x \<Rightarrow> if - 1 < x then Fin (ln (1 + x)) else if x = - 1 then NInf else NaN)"

definition num_add :: "num \<Rightarrow> num \<Rightarrow> num" where
  "num_add a b = (case a of None \<Rightarrow> None | Some x \<Rightarrow> (case b of None \<Rightarrow> None | Some y \<Rightarrow> Some (x + y)))"

definition num_mul :: "real \<Rightarrow> num \<Rightarrow> num" where
  "num_mul c a = map_option (\<lambda>x. c * x) a"

text \<open>Comparisons with a missing operand are false.\<close>

definition num_less :: "num \<Rightarrow> num \<Rightarrow> bool" where
  "num_less a b = (case a of None \<Rightarrow> False | Some x \<Rightarrow> (case b of None \<Rightarrow> False | Some y \<Rightarrow> x < y))"

definition bfill :: "num list \<Rightarrow> num list" where
  "bfill xs = rev (ffill (rev xs))"

definition fillna :: "num \<Rightarrow> num list \<Rightarrow> num list" where
  "fillna m xs = map (\<lambda>x. case x of None \<Rightarrow> m | Some v \<Rightarrow> Some v) xs"

text \<open>Lines 45-48 (and 51-54): forward fill, backward fill, then the median.\<close>

definition impute_series :: "num list \<Rightarrow> num list" where
  "impute_series xs = (let s = bfill (ffill xs) in
     if list_ex (\<lambda>x. x = None) s then fillna (median s) s else s)"

definition shift :: "nat \<Rightarrow> num list \<Rightarrow> num list" where
  "shift k xs = replicate (min k (length xs)) None @ take (length xs - k) xs"

text \<open>
  \<open>s.pct_change(periods=k)\<close> is \<open>s / s.shift(k) - 1\<close>.  Its default fill of missing
  entries has nothing to do here: after lines 45-48 the column has no missing entry or
  only missing entries.
\<close>

definition pct_change :: "nat \<Rightarrow> num list \<Rightarrow> fl list" where
  "pct_change k xs = map2 (\<lambda>a b. fl_sub_real (fl_div a b) 1) xs (shift k xs)"

text \<open>
  \<open>Series.quantile(q)\<close> with the default linear interpolation over the present entries.
\<close>

definition lerp_at :: "real list \<Rightarrow> real \<Rightarrow> real" where
  "lerp_at s pos = (let lo = nat \<lfloor>pos\<rfloor>; frac = pos - real lo in
     if Suc lo < length s then s ! lo + frac * (s ! Suc lo - s ! lo) else s ! lo)"

definition quantile :: "num list \<Rightarrow> real \<Rightarrow> num" where
  "quantile xs q = (let s = sort (dropna xs); n = length s in
     if n = 0 then None else Some (lerp_at s (q * real (n - 1))))"

text \<open>Lines 70-76.\<close>

definition outlier_bounds :: "num list \<Rightarrow> num \<times> num" where
  "outlier_bounds xs = (let Q1 = quantile xs 0.25;
                            Q3 = quantile xs 0.75;
                            IQR = num_sub Q3 Q1;
                            lower = num_sub Q1 (num_mul 1.5 IQR);
                            upper = num_add Q3 (num_mul 1.5 IQR)
                        in (lower, upper))"

definition is_outlier :: "num list \<Rightarrow> bool list" where
  "is_outlier xs = (let (lower, upper) = outlier_bounds xs in
     map (\<lambda>x. num_less x lower \<or> num_less upper x) xs)"

record quote =
  date :: int
  closing_price :: cell
  volume :: cell

record quotes =
  q_columns :: "string list"
  q_rows :: "quote list"

record preprocessed =
  p_date :: "int list"
  p_closing_price :: "num list"
  p_volume :: "num list"
  p_volume_log :: "fl list"
  p_ret_1d :: "fl list"
  p_ret_7d :: "fl list"
  p_is_outlier :: "bool list"

definition preprocess :: "(int list \<Rightarrow> nat list) \<Rightarrow> quotes \<Rightarrow> exn + preprocessed" where
  "preprocess argsort df =
     (case getitem (q_columns df) ''date'' of
        Inl e \<Rightarrow> Inl e
      | Inr _ \<Rightarrow>
         (let rs = map (\<lambda>i. q_rows df ! i) (argsort (map date (q_rows df))) in
          case getitem (q_columns df) ''closing_price'' of
            Inl e \<Rightarrow> Inl e
          | Inr _ \<Rightarrow>
             (case getitem (q_columns df) ''volume'' of
                Inl e \<Rightarrow> Inl e
              | Inr _ \<Rightarrow>
                 (let close = impute_series (map (\<lambda>r. to_numeric (closing_price r)) rs);
                      vol = impute_series (map (\<lambda>r. to_numeric (volume r)) rs)
                  in Inr \<lparr> p_date = map date rs,
                           p_closing_price = close,
                           p_volume = vol,
                           p_volume_log = map np_log1p vol,
                           p_ret_1d = pct_change 1 close,
                           p_ret_7d = pct_change 7 close,
                           p_is_outlier = is_outlier close \<rparr>))))"

section \<open>Auxiliary notions for the statements\<close>

text \<open>The column \<open>g[col]\<close> of the group of key \<open>k\<close>.\<close>

definition group_column :: "'k list \<Rightarrow> 'a list \<Rightarrow> 'k \<Rightarrow> 'a list" where
  "group_column keys col k = take_rows col (group_index keys k)"

text \<open>The effect of lines 49-53 on the forward-filled column \<open>f\<close> of one sensor.\<close>

definition fill_group :: "num list \<Rightarrow> num list" where
  "fill_group f = map (\<lambda>x. case x of None \<Rightarrow> median f | Some v \<Rightarrow> Some v) f"

text \<open>
  The two-pass imputation in the specification's words: every entry becomes the last
  present entry at or before its row; what is still missing becomes the median of the
  forward-filled column.
\<close>

definition last_present :: "num list \<Rightarrow> num" where
  "last_present xs = (case dropna xs of [] \<Rightarrow> None | v # vs \<Rightarrow> Some (last (v # vs)))"

definition ffill_spec :: "num list \<Rightarrow> num list" where
  "ffill_spec xs = map (\<lambda>i. last_present (take (Suc i) xs)) [0..<length xs]"

definition two_pass_spec :: "num list \<Rightarrow> num list" where
  "two_pass_spec xs = (let f = ffill_spec xs in
     map (\<lambda>x. case x of None \<Rightarrow> median f | Some v \<Rightarrow> Some v) f)"

text \<open>
  Two index orders that meet \<open>argsort_ok\<close>: insertion sort of the row labels, which
  keeps equal keys in input order, and insertion sort of the reversed row labels, which
  puts equal keys in reverse input order.
\<close>

definition stable_argsort :: "int list \<Rightarrow> nat list" where
  "stable_argsort ks = sort_key (\<lambda>i. ks ! i) [0..<length ks]"


section \<open>Example frames\<close>

definition all_columns :: "string list" where
  "all_columns = [''timestamp'', ''sensor_id'', ''temperature'', ''humidity'']"

definition df_w :: frame where
  "df_w = \<lparr> columns = all_columns,
            rows = [\<lparr> timestamp = 3, sensor_id = ''A'', temperature = Num 3, humidity = Num 40 \<rparr>,
                    \<lparr> timestamp = 1, sensor_id = ''A'', temperature = Num 1, humidity = Empty \<rparr>,
                    \<lparr> timestamp = 2, sensor_id = ''B'', temperature = Text ''bad'', humidity = Num 50 \<rparr>] \<rparr>"

definition out_w :: prepared where
  "out_w = \<lparr>
   c_timestamp = [1, 2, 3], c_sensor_id = [''A'', ''B'', ''A''], c_sensor_label = [0, 1, 0],
   c_temperature_raw = [Some 1, None, Some 3], c_humidity_raw = [None, Some 50, Some 40],
   c_temperature = [Some 1, None, Some 3], c_humidity = [Some 40, Some 50, Some 40],
   c_temperature_roll_mean = [Some 1, None, Some 2], c_humidity_roll_mean = [Some 40, Some 50, Some 40],
   c_temperature_detrended = [Some 0, None, Some 1], c_humidity_detrended = [Some 0, Some 0, Some 0],
   c_temperature_z = [Some (-1), Some 0, Some 1], c_humidity_z = [Some 0, Some 0, Some 0],
   c_one_hot = [(''sensor_A'', [True, False, True]), (''sensor_B'', [False, True, False])] \<rparr>"




definition df_empty :: frame where
  "df_empty = \<lparr> columns = all_columns, rows = [] \<rparr>"


definition quotes_empty :: quotes where
  "quotes_empty = \<lparr> q_columns = [''date'', ''closing_price'', ''volume''], q_rows = [] \<rparr>"

definition quotes_w :: quotes where
  "quotes_w = \<lparr> q_columns = [''date'', ''closing_price'', ''volume''],
     q_rows = [\<lparr> date = 2, closing_price = Num 5, volume = Num (- 1) \<rparr>,
               \<lparr> date = 1, closing_price = Num 0, volume = Num 0 \<rparr>,
               \<lparr> date = 3, closing_price = Num 10, volume = Num (- 2) \<rparr>,
               \<lparr> date = 4, closing_price = Num 12, volume = Num 1 \<rparr>,
               \<lparr> date = 5, closing_price = Num 9, volume = Empty \<rparr>,
               \<lparr> date = 6, closing_price = Num 100, volume = Num 3 \<rparr>,
               \<lparr> date = 7, closing_price = Num 11, volume = Text ''x'' \<rparr>,
               \<lparr> date = 8, closing_price = Num 3, volume = Num 0 \<rparr>] \<rparr>"

definition out_q :: preprocessed where
  "out_q = \<lparr> p_date = [1, 2, 3, 4, 5, 6, 7, 8],
     p_closing_price = [Some 0, Some 5, Some 10, Some 12, Some 9, Some 100, Some 11, Some 3],
     p_volume = [Some 0, Some (- 1), Some (- 2), Some 1, Some 1, Some 3, Some 3, Some 0],
     p_volume_log = [Fin 0, NInf, NaN, Fin (ln 2), Fin (ln 2), Fin (ln 4), Fin (ln 4), Fin 0],
     p_ret_1d = [NaN, PInf, Fin 1, Fin (1 / 5), Fin (- (1 / 4)), Fin (91 / 9), Fin (- (89 / 100)), Fin (- (8 / 11))],
     p_ret_7d = [NaN, NaN, NaN, NaN, NaN, NaN, NaN, PInf],
     p_is_outlier = [False, False, False, False, False, True, False, False] \<rparr>"

section \<open>Groups and aligned assignment\<close>

lemma set_group_index: "set (group_index keys k) = {i. i < length keys \<and> keys ! i = k}"
  by (auto simp: group_index_def)

lemma distinct_group_index: "distinct (group_index keys k)"
  by (simp add: group_index_def)

lemma set_concat_group_index:
  "set (concat (map (group_index keys) ks)) = {i. i < length keys \<and> keys ! i \<in> set ks}"
  by (auto simp: set_group_index)

lemma distinct_concat_group_index:
  "distinct ks \<Longrightarrow> distinct (concat (map (group_index keys) ks))"
proof (induction ks)
  case Nil
  then show ?case by simp
next
  case (Cons k ks)
  have "set (group_index keys k) \<inter> set (concat (map (group_index keys) ks)) = {}"
    using Cons.prems by (auto simp: set_group_index)
  with Cons show ?case by (simp add: distinct_group_index)
qed

lemma map_snd_groupby: "map snd (groupby keys) = map (group_index keys) (sort (remdups keys))"
  by (simp add: groupby_def comp_def)

lemma distinct_groupby: "distinct (concat (map snd (groupby keys)))"
  by (simp add: map_snd_groupby distinct_concat_group_index)

lemma groupby_mem: "(k, idx) \<in> set (groupby keys) \<longleftrightarrow> k \<in> set keys \<and> idx = group_index keys k"
  by (auto simp: groupby_def)

lemma length_take_rows [simp]: "length (take_rows col idx) = length idx"
  by (simp add: take_rows_def)

lemma map_of_concat_pick:
  "k \<in> set ks \<Longrightarrow> i \<in> fst ` set (G k) \<Longrightarrow>
   (\<And>k'. k' \<in> set ks \<Longrightarrow> k' \<noteq> k \<Longrightarrow> i \<notin> fst ` set (G k')) \<Longrightarrow>
   map_of (concat (map G ks)) i = map_of (G k) i"
proof (induction ks)
  case Nil
  then show ?case by simp
next
  case (Cons a ks)
  show ?case
  proof (cases "a = k")
    case True
    from Cons.prems(2) obtain v where "map_of (G k) i = Some v"
      by (metis domD dom_map_of_conv_image_fst)
    with True show ?thesis by (simp add: map_add_def)
  next
    case False
    then have "i \<notin> fst ` set (G a)" using Cons.prems(3) by simp
    then have "map_of (G a) i = None" by (simp add: map_of_eq_None_iff)
    moreover have "k \<in> set ks" using Cons.prems(1) False by simp
    ultimately show ?thesis using Cons by (simp add: map_add_def)
  qed
qed

lemma map_of_zip_at:
  assumes "distinct idx" "length vals = length idx" "j < length idx"
  shows "map_of (zip idx vals) (idx ! j) = Some (vals ! j)"
  using assms by (simp add: map_of_zip_nth)

text \<open>Scatter and gather: the aligned column, restricted to a group, is the group's result.\<close>
lemma set_column_groups:
  assumes len: "\<And>k. length (F k (group_index keys k)) = length (group_index keys k)"
  shows "take_rows (set_column (length keys)
            (concat (map (\<lambda>(k, idx). zip idx (F k idx)) (groupby keys)))) (group_index keys k)
         = F k (group_index keys k)"
proof (rule nth_equalityI)
  show "length (take_rows (set_column (length keys)
            (concat (map (\<lambda>(k, idx). zip idx (F k idx)) (groupby keys)))) (group_index keys k))
        = length (F k (group_index keys k))"
    by (simp add: len)
next
  fix j
  let ?S = "concat (map (\<lambda>(k, idx). zip idx (F k idx)) (groupby keys))"
  let ?G = "\<lambda>k. zip (group_index keys k) (F k (group_index keys k))"
  assume "j < length (take_rows (set_column (length keys) ?S) (group_index keys k))"
  then have j: "j < length (group_index keys k)" by simp
  define i where "i = group_index keys k ! j"
  have imem: "i \<in> set (group_index keys k)" using j by (simp add: i_def)
  then have i: "i < length keys" "keys ! i = k" by (auto simp: set_group_index)
  then have kmem: "k \<in> set keys" by auto
  have S: "?S = concat (map ?G (sort (remdups keys)))"
    by (simp add: groupby_def comp_def)
  have fstG: "\<And>k'. fst ` set (?G k') = set (group_index keys k')"
    using len by (metis map_fst_zip set_map)
  have "map_of ?S i = map_of (?G k) i"
    unfolding S
  proof (rule map_of_concat_pick)
    show "k \<in> set (sort (remdups keys))" using kmem by simp
    show "i \<in> fst ` set (?G k)" using imem fstG by simp
    fix k' assume "k' \<in> set (sort (remdups keys))" "k' \<noteq> k"
    then show "i \<notin> fst ` set (?G k')" using i fstG by (auto simp: set_group_index)
  qed
  also have "\<dots> = Some (F k (group_index keys k) ! j)"
    unfolding i_def using j len by (intro map_of_zip_at) (simp_all add: distinct_group_index)
  finally have "map_of ?S i = Some (F k (group_index keys k) ! j)" .
  then have "set_column (length keys) ?S ! i = F k (group_index keys k) ! j"
    using i by (simp add: set_column_def)
  then show "take_rows (set_column (length keys) ?S) (group_index keys k) ! j = F k (group_index keys k) ! j"
    using j by (simp add: take_rows_def i_def)
qed

lemma map_of_sort_index:
  assumes "distinct (map fst s)"
  shows "map_of (sort_index s) = map_of s"
proof -
  have d: "distinct (map fst (sort_index s))"
    using assms by (simp add: distinct_map sort_index_def)
  have "set (sort_index s) = set s" by (simp add: sort_index_def)
  with d assms show ?thesis by (simp add: map_of_inject_set)
qed

lemma length_loc_assign [simp]: "length (loc_assign z idx vals) = length z"
  by (simp add: loc_assign_def)

lemma loc_assign_other:
  "i < length z \<Longrightarrow> i \<notin> set idx \<Longrightarrow> loc_assign z idx vals ! i = z ! i"
proof -
  assume a: "i < length z" "i \<notin> set idx"
  have "i \<notin> fst ` set (zip idx vals)" using a(2) by (auto dest: set_zip_leftD)
  then have "map_of (zip idx vals) i = None" by (simp add: map_of_eq_None_iff)
  with a(1) show ?thesis by (simp add: loc_assign_def)
qed

lemma loc_assign_group:
  assumes "distinct idx" "length vals = length idx" "\<And>i. i \<in> set idx \<Longrightarrow> i < length z"
  shows "take_rows (loc_assign z idx vals) idx = vals"
proof (rule nth_equalityI)
  show "length (take_rows (loc_assign z idx vals) idx) = length vals" using assms by simp
next
  fix j assume "j < length (take_rows (loc_assign z idx vals) idx)"
  then have j: "j < length idx" by simp
  then have "idx ! j < length z" using assms(3) by simp
  moreover have "map_of (zip idx vals) (idx ! j) = Some (vals ! j)"
    using assms j by (simp add: map_of_zip_nth)
  ultimately show "take_rows (loc_assign z idx vals) idx ! j = vals ! j"
    using j by (simp add: take_rows_def loc_assign_def)
qed

lemma length_fold_loc_assign [simp]:
  "length (fold (\<lambda>(k, idx) z. loc_assign z idx (F idx)) gs z) = length z"
  by (induction gs arbitrary: z) (auto simp: case_prod_beta)

lemma fold_loc_assign_other:
  "i < length z \<Longrightarrow> i \<notin> set (concat (map snd gs)) \<Longrightarrow>
   fold (\<lambda>(k, idx) z. loc_assign z idx (F idx)) gs z ! i = z ! i"
proof (induction gs arbitrary: z)
  case Nil
  then show ?case by simp
next
  case (Cons g gs)
  obtain k idx where g: "g = (k, idx)" by (cases g)
  have "fold (\<lambda>(k, idx) z. loc_assign z idx (F idx)) gs (loc_assign z idx (F idx)) ! i
        = loc_assign z idx (F idx) ! i"
    using Cons.prems by (intro Cons.IH) simp_all
  also have "\<dots> = z ! i" using Cons.prems g by (simp add: loc_assign_other)
  finally show ?case by (simp add: g)
qed

lemma fold_loc_assign_group:
  assumes "(k, idx) \<in> set gs" "distinct (concat (map snd gs))"
    "\<And>k idx i. (k, idx) \<in> set gs \<Longrightarrow> i \<in> set idx \<Longrightarrow> i < length z"
    "\<And>k idx. (k, idx) \<in> set gs \<Longrightarrow> length (F idx) = length idx"
  shows "take_rows (fold (\<lambda>(k, idx) z. loc_assign z idx (F idx)) gs z) idx = F idx"
  using assms
proof (induction gs arbitrary: z)
  case Nil
  then show ?case by simp
next
  case (Cons g gs)
  obtain k0 idx0 where g: "g = (k0, idx0)" by (cases g)
  let ?z1 = "loc_assign z idx0 (F idx0)"
  let ?f = "\<lambda>(k, idx) z. loc_assign z idx (F idx)"
  have d0: "distinct idx0" and drest: "distinct (concat (map snd gs))"
    and disj: "set idx0 \<inter> set (concat (map snd gs)) = {}"
    using Cons.prems(2) g by auto
  show ?case
  proof (cases "(k, idx) \<in> set gs")
    case True
    have "take_rows (fold ?f gs ?z1) idx = F idx"
    proof (rule Cons.IH)
      show "(k, idx) \<in> set gs" by (rule True)
      show "distinct (concat (map snd gs))" by (rule drest)
      show "\<And>k idx i. (k, idx) \<in> set gs \<Longrightarrow> i \<in> set idx \<Longrightarrow> i < length ?z1"
      proof -
        fix k idx i assume "(k, idx) \<in> set gs" "i \<in> set idx"
        then have "i < length z" using Cons.prems(3)[of k idx i] by simp
        then show "i < length ?z1" by simp
      qed
      show "\<And>k idx. (k, idx) \<in> set gs \<Longrightarrow> length (F idx) = length idx"
        using Cons.prems(4) by (meson list.set_intros(2))
    qed
    then show ?thesis by (simp add: g)
  next
    case False
    then have eq: "k = k0" "idx = idx0" using Cons.prems(1) g by auto
    have lt: "\<And>i. i \<in> set idx0 \<Longrightarrow> i < length z" using Cons.prems(3) g by auto
    have len: "length (F idx0) = length idx0" using Cons.prems(4) g by auto
    have "take_rows (fold ?f gs ?z1) idx0 = take_rows ?z1 idx0"
      unfolding take_rows_def
    proof (rule map_cong[OF refl])
      fix i assume i: "i \<in> set idx0"
      then have "i \<notin> set (concat (map snd gs))" using disj by auto
      moreover have "i < length ?z1" using lt i by simp
      ultimately show "fold ?f gs ?z1 ! i = ?z1 ! i" by (rule fold_loc_assign_other[rotated])
    qed
    also have "\<dots> = F idx0" using d0 len lt by (rule loc_assign_group)
    finally show ?thesis by (simp add: g eq)
  qed
qed

lemma zscore_column_group:
  assumes "length det = length keys"
  shows "take_rows (zscore_column keys det) (group_index keys k)
         = zscore_group (take_rows det (group_index keys k))"
proof (cases "k \<in> set keys")
  case True
  then have "(k, group_index keys k) \<in> set (groupby keys)" by (simp add: groupby_mem)
  then show ?thesis
    unfolding zscore_column_def
  proof (rule fold_loc_assign_group)
    show "distinct (concat (map snd (groupby keys)))" by (rule distinct_groupby)
    show "\<And>k idx i. (k, idx) \<in> set (groupby keys) \<Longrightarrow> i \<in> set idx \<Longrightarrow>
          i < length (replicate (length keys) None)"
      by (auto simp: groupby_mem set_group_index)
    show "\<And>k idx. (k, idx) \<in> set (groupby keys) \<Longrightarrow>
          length (zscore_group (take_rows det idx)) = length idx"
      by (auto simp: zscore_group_def Let_def split: option.splits)
  qed
next
  case False
  then have "group_index keys k = []"
    by (auto simp: group_index_def filter_empty_conv)
  then show ?thesis by (simp add: take_rows_def zscore_group_def mean_def std_def dropna_def List.map_filter_def)
qed

section \<open>Imputation\<close>

lemma length_set_column [simp]: "length (set_column n s) = n"
  by (simp add: set_column_def)

lemma length_groupby_transform [simp]: "length (groupby_transform f keys col) = length keys"
  by (simp add: groupby_transform_def)

lemma groupby_transform_group:
  assumes "\<And>g. length (f g) = length g"
  shows "take_rows (groupby_transform f keys col) (group_index keys k)
         = f (take_rows col (group_index keys k))"
  unfolding groupby_transform_def
  using set_column_groups[where F = "\<lambda>k idx. f (take_rows col idx)" and keys = keys and k = k]
  by (simp add: assms)

lemma length_ffill_from [simp]: "length (ffill_from p xs) = length xs"
  by (induction p xs rule: ffill_from.induct) simp_all

lemma length_ffill [simp]: "length (ffill xs) = length xs"
  by (simp add: ffill_def)

lemma length_transform_median [simp]: "length (transform_median g) = length g"
  by (simp add: transform_median_def)

lemma group_index_lt: "i \<in> set (group_index keys k) \<Longrightarrow> i < length keys"
  by (simp add: set_group_index)

lemma take_rows_map_zip:
  assumes "\<And>i. i \<in> set idx \<Longrightarrow> i < length a \<and> i < length b"
  shows "take_rows (map F (zip a b)) idx = map F (zip (take_rows a idx) (take_rows b idx))"
  using assms by (induction idx) (simp_all add: take_rows_def)

lemma fill_median_group:
  assumes len: "length col = length keys"
  shows "take_rows (fill_median keys col) (group_index keys k)
         = fill_group (take_rows col (group_index keys k))"
proof (cases "list_ex (\<lambda>b. b) (map (\<lambda>x. x = None) col)")
  case False
  then have "None \<notin> set col"
    by (auto simp: list_ex_iff)
  then have nn: "\<And>i. i < length col \<Longrightarrow> col ! i \<noteq> None"
    by (metis nth_mem)
  have "fill_median keys col = col" using False by (simp add: fill_median_def)
  moreover have "fill_group (take_rows col (group_index keys k)) = take_rows col (group_index keys k)"
  proof -
    have "\<And>x. x \<in> set (take_rows col (group_index keys k)) \<Longrightarrow> x \<noteq> None"
      using nn len by (auto simp: take_rows_def set_group_index)
    then show ?thesis
      unfolding fill_group_def by (intro map_idI) (auto split: option.splits)
  qed
  ultimately show ?thesis by simp
next
  case True
  let ?idx = "group_index keys k"
  let ?med = "groupby_transform transform_median keys col"
  let ?F = "\<lambda>(m, x, md). if m then md else x"
  have fm: "fill_median keys col = map ?F (zip (map (\<lambda>x. x = None) col) (zip col ?med))"
    using True by (simp add: fill_median_def)
  have medg: "take_rows ?med ?idx = replicate (length ?idx) (median (take_rows col ?idx))"
    by (simp add: groupby_transform_group transform_median_def)
  have lt: "\<And>i. i \<in> set ?idx \<Longrightarrow> i < length keys" by (rule group_index_lt)
  show ?thesis
  proof (rule nth_equalityI)
    show "length (take_rows (fill_median keys col) ?idx) = length (fill_group (take_rows col ?idx))"
      by (simp add: fill_group_def)
  next
    fix j assume "j < length (take_rows (fill_median keys col) ?idx)"
    then have j: "j < length ?idx" by simp
    then have i: "?idx ! j < length keys" using lt by simp
    have "take_rows ?med ?idx ! j = median (take_rows col ?idx)"
      using medg j by simp
    then have m: "?med ! (?idx ! j) = median (take_rows col ?idx)"
      using j by (simp add: take_rows_def)
    show "take_rows (fill_median keys col) ?idx ! j = fill_group (take_rows col ?idx) ! j"
      using j i len m by (simp add: fm take_rows_def fill_group_def split: option.splits)
  qed
qed

lemma impute_column_group:
  assumes "length col = length keys"
  shows "take_rows (impute_column keys col) (group_index keys k)
         = fill_group (ffill (take_rows col (group_index keys k)))"
  unfolding impute_column_def
  by (simp add: fill_median_group groupby_transform_group)

lemma length_fill_median [simp]: "length col = length keys \<Longrightarrow> length (fill_median keys col) = length keys"
  by (simp add: fill_median_def Let_def)

lemma length_impute_column [simp]: "length (impute_column keys col) = length keys"
  by (simp add: impute_column_def)

lemma ffill_from_all_missing:
  "i < length xs \<Longrightarrow> (\<And>l. l \<le> i \<Longrightarrow> xs ! l = None) \<Longrightarrow> ffill_from p xs ! i = p"
proof (induction p xs arbitrary: i rule: ffill_from.induct)
  case (1 prev)
  then show ?case by simp
next
  case (2 prev xs)
  show ?case
  proof (cases i)
    case 0
    then show ?thesis by simp
  next
    case (Suc i')
    have "ffill_from prev xs ! i' = prev"
    proof (rule "2.IH")
      show "i' < length xs" using "2.prems"(1) Suc by simp
      fix l assume "l \<le> i'"
      then have "(None # xs) ! Suc l = None" using "2.prems"(2)[of "Suc l"] Suc by simp
      then show "xs ! l = None" by simp
    qed
    then show ?thesis using Suc by simp
  qed
next
  case (3 prev v xs)
  from "3.prems"(2)[of 0] show ?case by simp
qed

lemma ffill_from_last_valid:
  "j \<le> i \<Longrightarrow> i < length xs \<Longrightarrow> xs ! j = Some v \<Longrightarrow>
   (\<And>l. j < l \<Longrightarrow> l \<le> i \<Longrightarrow> xs ! l = None) \<Longrightarrow> ffill_from p xs ! i = Some v"
proof (induction p xs arbitrary: i j rule: ffill_from.induct)
  case (1 prev)
  then show ?case by simp
next
  case (2 prev xs)
  then obtain j' where j: "j = Suc j'" by (cases j) auto
  then obtain i' where i: "i = Suc i'" using "2.prems"(1) by (cases i) auto
  have "ffill_from prev xs ! i' = Some v"
  proof (rule "2.IH"[of j' i'])
    show "j' \<le> i'" using "2.prems"(1) i j by simp
    show "i' < length xs" using "2.prems"(2) i by simp
    show "xs ! j' = Some v" using "2.prems"(3) j by simp
    fix l assume "j' < l" "l \<le> i'"
    then have "(None # xs) ! Suc l = None" using "2.prems"(4)[of "Suc l"] i j by simp
    then show "xs ! l = None" by simp
  qed
  then show ?case using i by simp
next
  case (3 prev w xs)
  show ?case
  proof (cases j)
    case 0
    then have vw: "w = v" using "3.prems"(3) by simp
    show ?thesis
    proof (cases i)
      case 0
      then show ?thesis using vw by simp
    next
      case (Suc i')
      have "ffill_from (Some w) xs ! i' = Some w"
      proof (rule ffill_from_all_missing)
        show "i' < length xs" using "3.prems"(2) Suc by simp
        fix l assume "l \<le> i'"
        then have "(Some w # xs) ! Suc l = None" using "3.prems"(4)[of "Suc l"] Suc \<open>j = 0\<close> by simp
        then show "xs ! l = None" by simp
      qed
      then show ?thesis using Suc vw by simp
    qed
  next
    case (Suc j')
    then obtain i' where i: "i = Suc i'" using "3.prems"(1) by (cases i) auto
    have "ffill_from (Some w) xs ! i' = Some v"
    proof (rule "3.IH"[of j' i'])
      show "j' \<le> i'" using "3.prems"(1) i Suc by simp
      show "i' < length xs" using "3.prems"(2) i by simp
      show "xs ! j' = Some v" using "3.prems"(3) Suc by simp
      fix l assume "j' < l" "l \<le> i'"
      then have "(Some w # xs) ! Suc l = None" using "3.prems"(4)[of "Suc l"] i Suc by simp
      then show "xs ! l = None" by simp
    qed
    then show ?thesis using i by simp
  qed
qed

lemma length_rolling_mean [simp]: "length (rolling_mean w p xs) = length xs"
  by (simp add: rolling_mean_def)

lemma mean_None_iff: "mean xs = None \<longleftrightarrow> dropna xs = []"
  by (simp add: mean_def Let_def)

lemma rolling_mean_nth:
  "i < length xs \<Longrightarrow> rolling_mean w (Suc 0) xs ! i = mean (window_at w xs i)"
  by (cases "dropna (window_at w xs i)") (simp_all add: rolling_mean_def mean_def)

lemma window_at_conv:
  "i < length xs \<Longrightarrow> window_at w xs i = map (\<lambda>j. xs ! j) [Suc i - w..<Suc i]"
  by (rule nth_equalityI) (auto simp add: window_at_def simp del: upt_Suc)

lemma length_window_at:
  "i < length xs \<Longrightarrow> length (window_at w xs i) = min w (Suc i)"
  by (auto simp: window_at_def)

lemma dropna_present: "None \<notin> set xs \<Longrightarrow> map Some (dropna xs) = xs"
proof (induction xs)
  case Nil
  then show ?case by (simp add: dropna_def List.map_filter_def)
next
  case (Cons x xs)
  then obtain v where "x = Some v" by (cases x) auto
  with Cons show ?case by (simp add: dropna_def List.map_filter_def)
qed

lemma dropna_missing: "set xs \<subseteq> {None} \<Longrightarrow> dropna xs = []"
  by (induction xs) (auto simp: dropna_def List.map_filter_def)

lemma dropna_map_Some [simp]: "dropna (map Some vs) = vs"
  by (induction vs) (simp_all add: dropna_def List.map_filter_def)

lemma dropna_Nil_iff: "dropna xs = [] \<longleftrightarrow> set xs \<subseteq> {None}"
  by (induction xs) (auto simp: dropna_def List.map_filter_def split: option.splits)

lemma rolling_mean_first:
  assumes "1 \<le> w" "xs \<noteq> []"
  shows "rolling_mean w (Suc 0) xs ! 0 = xs ! 0"
proof -
  have "window_at w xs 0 = [xs ! 0]"
    using assms by (cases xs) (simp_all add: window_at_def)
  then show ?thesis using assms
    by (cases "xs ! 0") (simp_all add: rolling_mean_nth mean_def dropna_def List.map_filter_def)
qed

section \<open>Drift removal and z-scores\<close>

lemma length_remove_drift [simp]:
  "length (fst (remove_drift g w)) = length g" "length (snd (remove_drift g w)) = length g"
  by (simp_all add: remove_drift_def Let_def)

lemma groupby_Nil_iff: "groupby keys = [] \<longleftrightarrow> keys = []"
proof -
  have "sort (remdups keys) = [] \<longleftrightarrow> set (sort (remdups keys)) = {}"
    by (simp only: set_empty)
  then show ?thesis by (simp add: groupby_def)
qed

lemma set_column_sort_index:
  "distinct (map fst s) \<Longrightarrow> set_column n (sort_index s) = set_column n s"
  by (simp add: set_column_def map_of_sort_index)

lemma map_fst_group_series:
  assumes "\<And>k. length (F k (group_index keys k)) = length (group_index keys k)"
  shows "map fst (concat (map (\<lambda>(k, idx). zip idx (F k idx)) (groupby keys)))
         = concat (map snd (groupby keys))"
proof -
  have "map (\<lambda>g. map fst (case g of (k, idx) \<Rightarrow> zip idx (F k idx))) (groupby keys)
        = map snd (groupby keys)"
    using assms by (auto simp: groupby_def)
  then have "concat (map (\<lambda>g. map fst (case g of (k, idx) \<Rightarrow> zip idx (F k idx))) (groupby keys))
        = concat (map snd (groupby keys))"
    by (rule arg_cong)
  then show ?thesis by (simp only: map_concat map_map comp_def)
qed

lemma drift_columns_Nil:
  "drift_columns [] col = Inl (''ValueError'', ''No objects to concatenate'')"
  by (simp add: drift_columns_def groupby_def pd_concat_def)

lemma drift_columns_eq:
  assumes "keys \<noteq> []"
  shows "drift_columns keys col =
     Inr (set_column (length keys)
            (concat (map (\<lambda>(k, idx). zip idx (snd (remove_drift (take_rows col idx) ROLL_WINDOW)))
               (groupby keys))),
          set_column (length keys)
            (concat (map (\<lambda>(k, idx). zip idx (fst (remove_drift (take_rows col idx) ROLL_WINDOW)))
               (groupby keys))))"
proof -
  let ?res = "map (\<lambda>(k, idx). (idx, remove_drift (take_rows col idx) ROLL_WINDOW)) (groupby keys)"
  let ?Fr = "\<lambda>k idx. snd (remove_drift (take_rows col idx) ROLL_WINDOW)"
  let ?Fd = "\<lambda>k idx. fst (remove_drift (take_rows col idx) ROLL_WINDOW)"
  let ?Sr = "concat (map (\<lambda>(k, idx). zip idx (?Fr k idx)) (groupby keys))"
  let ?Sd = "concat (map (\<lambda>(k, idx). zip idx (?Fd k idx)) (groupby keys))"
  have ne: "groupby keys \<noteq> []" using assms by (simp add: groupby_Nil_iff)
  have r: "map (\<lambda>(idx, det, roll). zip idx roll) ?res = map (\<lambda>(k, idx). zip idx (?Fr k idx)) (groupby keys)"
    by (simp add: case_prod_beta comp_def)
  have d: "map (\<lambda>(idx, det, roll). zip idx det) ?res = map (\<lambda>(k, idx). zip idx (?Fd k idx)) (groupby keys)"
    by (simp add: case_prod_beta comp_def)
  have "distinct (map fst ?Sr)"
    by (subst map_fst_group_series) (simp_all add: distinct_groupby)
  then have sr: "set_column (length keys) (sort_index ?Sr) = set_column (length keys) ?Sr"
    by (rule set_column_sort_index)
  have "distinct (map fst ?Sd)"
    by (subst map_fst_group_series) (simp_all add: distinct_groupby)
  then have sd: "set_column (length keys) (sort_index ?Sd) = set_column (length keys) ?Sd"
    by (rule set_column_sort_index)
  show ?thesis
    unfolding drift_columns_def Let_def r d
    using ne by (simp add: pd_concat_def sr sd)
qed

lemma drift_columns_group:
  assumes "drift_columns keys col = Inr (roll, det)"
  shows "take_rows roll (group_index keys k) = snd (remove_drift (take_rows col (group_index keys k)) ROLL_WINDOW)"
    and "take_rows det (group_index keys k) = fst (remove_drift (take_rows col (group_index keys k)) ROLL_WINDOW)"
    and "length roll = length keys" and "length det = length keys"
proof -
  have ne: "keys \<noteq> []" using assms by (auto simp: drift_columns_Nil)
  note eq = assms[unfolded drift_columns_eq[OF ne]]
  from eq have r: "roll = set_column (length keys)
            (concat (map (\<lambda>(k, idx). zip idx (snd (remove_drift (take_rows col idx) ROLL_WINDOW)))
               (groupby keys)))" by simp
  from eq have d: "det = set_column (length keys)
            (concat (map (\<lambda>(k, idx). zip idx (fst (remove_drift (take_rows col idx) ROLL_WINDOW)))
               (groupby keys)))" by simp
  show "take_rows roll (group_index keys k) = snd (remove_drift (take_rows col (group_index keys k)) ROLL_WINDOW)"
    unfolding r
    using set_column_groups[where F = "\<lambda>k idx. snd (remove_drift (take_rows col idx) ROLL_WINDOW)"
        and keys = keys and k = k] by simp
  show "take_rows det (group_index keys k) = fst (remove_drift (take_rows col (group_index keys k)) ROLL_WINDOW)"
    unfolding d
    using set_column_groups[where F = "\<lambda>k idx. fst (remove_drift (take_rows col idx) ROLL_WINDOW)"
        and keys = keys and k = k] by simp
  show "length roll = length keys" by (simp add: r)
  show "length det = length keys" by (simp add: d)
qed

lemma dropna_Cons_None [simp]: "dropna (None # xs) = dropna xs"
  by (simp add: dropna_def List.map_filter_def)

lemma dropna_Cons_Some [simp]: "dropna (Some v # xs) = v # dropna xs"
  by (simp add: dropna_def List.map_filter_def)

lemma dropna_Nil [simp]: "dropna [] = []"
  by (simp add: dropna_def List.map_filter_def)

lemma ffill_from_spec:
  "ffill_from p xs =
     map (\<lambda>i. case dropna (take (Suc i) xs) of [] \<Rightarrow> p | v # vs \<Rightarrow> Some (last (v # vs)))
       [0..<length xs]"
proof (induction p xs rule: ffill_from.induct)
  case (1 prev)
  then show ?case by simp
next
  case (2 prev xs)
  have "[0..<length (None # xs)] = 0 # map Suc [0..<length xs]"
    by (simp add: upt_conv_Cons map_Suc_upt del: upt_Suc)
  then show ?case using 2 by (simp add: comp_def del: upt_Suc)
next
  case (3 prev v xs)
  have "[0..<length (Some v # xs)] = 0 # map Suc [0..<length xs]"
    by (simp add: upt_conv_Cons map_Suc_upt del: upt_Suc)
  then show ?case using 3 by (auto simp add: comp_def split: list.splits simp del: upt_Suc)
qed

lemma ffill_eq_spec: "ffill xs = ffill_spec xs"
  by (simp add: ffill_def ffill_spec_def last_present_def ffill_from_spec)

lemma fill_group_ffill: "fill_group (ffill xs) = two_pass_spec xs"
  by (simp add: fill_group_def two_pass_spec_def ffill_eq_spec Let_def)

lemma sort_Nil_iff: "sort ys = [] \<longleftrightarrow> ys = []"
  by (metis length_sort length_0_conv)

lemma median_None_iff: "median xs = None \<longleftrightarrow> dropna xs = []"
proof (cases "dropna xs = []")
  case True
  then show ?thesis by (simp add: median_def)
next
  case False
  then have "length (sort (dropna xs)) \<noteq> 0" by simp
  then have "median xs \<noteq> None"
    unfolding median_def Let_def by (simp only: if_False split: if_splits) simp
  with False show ?thesis by simp
qed

lemma fill_group_uniform: "None \<notin> set (fill_group f) \<or> set (fill_group f) \<subseteq> {None}"
proof (cases "dropna f = []")
  case True
  then have "set f \<subseteq> {None}" by (simp add: dropna_Nil_iff)
  moreover have "median f = None" using True by (simp add: median_None_iff)
  ultimately have "set (fill_group f) \<subseteq> {None}"
    by (auto simp: fill_group_def split: option.splits)
  then show ?thesis by simp
next
  case False
  then obtain m where "median f = Some m" using median_None_iff[of f] by (cases "median f") auto
  then have "None \<notin> set (fill_group f)"
    by (auto simp: fill_group_def split: option.splits)
  then show ?thesis by simp
qed

lemma set_window_at: "set (window_at w xs i) \<subseteq> set xs"
  unfolding window_at_def by (meson set_drop_subset set_take_subset subset_trans)

lemma rolling_mean_present:
  assumes "1 \<le> w" "None \<notin> set g"
  shows "None \<notin> set (rolling_mean w (Suc 0) g)"
proof
  assume "None \<in> set (rolling_mean w (Suc 0) g)"
  then obtain i where i: "i < length g" "rolling_mean w (Suc 0) g ! i = None"
    by (metis in_set_conv_nth length_rolling_mean)
  then have "mean (window_at w g i) = None" by (simp add: rolling_mean_nth)
  then have "set (window_at w g i) \<subseteq> {None}" by (simp add: mean_None_iff dropna_Nil_iff)
  moreover have "window_at w g i \<noteq> []"
    using length_window_at[OF i(1), of w] assms(1) by auto
  ultimately have "None \<in> set (window_at w g i)"
    by (cases "window_at w g i") auto
  then show False using set_window_at assms(2) by blast
qed

lemma rolling_mean_missing:
  assumes "set g \<subseteq> {None}"
  shows "set (rolling_mean w p g) \<subseteq> {None}"
proof -
  have "\<And>i. dropna (window_at w g i) = []"
    using assms set_window_at[of w g] by (simp add: dropna_Nil_iff) blast
  then show ?thesis by (auto simp: rolling_mean_def mean_def)
qed

lemma remove_drift_uniform:
  assumes "1 \<le> w" "None \<notin> set g \<or> set g \<subseteq> {None}"
  shows "None \<notin> set (fst (remove_drift g w)) \<or> set (fst (remove_drift g w)) \<subseteq> {None}"
proof -
  have d: "fst (remove_drift g w) = map2 num_sub g (rolling_mean w (Suc 0) g)"
    by (simp add: remove_drift_def Let_def)
  from assms(2) show ?thesis
  proof
    assume p: "None \<notin> set g"
    then have "None \<notin> set (rolling_mean w (Suc 0) g)" using assms(1) by (rule rolling_mean_present[rotated])
    with p have "None \<notin> set (map2 num_sub g (rolling_mean w (Suc 0) g))"
      by (auto simp: num_sub_def split: option.splits dest: set_zip_leftD set_zip_rightD)
    then show ?thesis by (simp add: d)
  next
    assume "set g \<subseteq> {None}"
    then have "set (map2 num_sub g (rolling_mean w (Suc 0) g)) \<subseteq> {None}"
      by (auto simp: num_sub_def split: option.splits dest!: set_zip_leftD)
    then show ?thesis by (simp add: d)
  qed
qed





lemma ROLL_WINDOW_pos: "1 \<le> ROLL_WINDOW"
  by (simp add: ROLL_WINDOW_def)







text \<open>One measured column through lines 46-107.\<close>
lemma column_pipeline:
  assumes len: "length raw = length ids"
    and drift: "drift_columns ids (impute_column ids raw) = Inr (roll, det)"
  shows "group_column ids (impute_column ids raw) k = two_pass_spec (group_column ids raw k)"
    and "group_column ids roll k = snd (remove_drift (group_column ids (impute_column ids raw) k) ROLL_WINDOW)"
    and "group_column ids det k = fst (remove_drift (group_column ids (impute_column ids raw) k) ROLL_WINDOW)"
    and "group_column ids (zscore_column ids det) k = zscore_group (group_column ids det k)"
    and "None \<notin> set (group_column ids det k) \<or> set (group_column ids det k) \<subseteq> {None}"
    and "length roll = length ids" and "length det = length ids"
proof -
  show imp: "group_column ids (impute_column ids raw) k = two_pass_spec (group_column ids raw k)"
    by (simp add: group_column_def impute_column_group[OF len] fill_group_ffill)
  show "group_column ids roll k = snd (remove_drift (group_column ids (impute_column ids raw) k) ROLL_WINDOW)"
    unfolding group_column_def by (rule drift_columns_group(1)[OF drift])
  show d: "group_column ids det k = fst (remove_drift (group_column ids (impute_column ids raw) k) ROLL_WINDOW)"
    unfolding group_column_def by (rule drift_columns_group(2)[OF drift])
  show "length roll = length ids" by (rule drift_columns_group(3)[OF drift])
  show ld: "length det = length ids" by (rule drift_columns_group(4)[OF drift])
  show "group_column ids (zscore_column ids det) k = zscore_group (group_column ids det k)"
    unfolding group_column_def by (rule zscore_column_group[OF ld])
  have "group_column ids (impute_column ids raw) k = fill_group (ffill (group_column ids raw k))"
    by (simp add: group_column_def impute_column_group[OF len])
  then have "None \<notin> set (group_column ids (impute_column ids raw) k)
      \<or> set (group_column ids (impute_column ids raw) k) \<subseteq> {None}"
    using fill_group_uniform[of "ffill (group_column ids raw k)"] by simp
  then show "None \<notin> set (group_column ids det k) \<or> set (group_column ids det k) \<subseteq> {None}"
    unfolding d by (rule remove_drift_uniform[OF ROLL_WINDOW_pos])
qed


text \<open>What a successful run has computed.\<close>
lemma normalize_sensors_Inr:
  assumes "normalize_sensors ts ids traw hraw = Inr out"
  shows "c_timestamp out = ts" "c_sensor_id out = ids"
    "c_temperature_raw out = traw" "c_humidity_raw out = hraw"
    "c_temperature out = impute_column ids traw" "c_humidity out = impute_column ids hraw"
    "drift_columns ids (impute_column ids traw) = Inr (c_temperature_roll_mean out, c_temperature_detrended out)"
    "drift_columns ids (impute_column ids hraw) = Inr (c_humidity_roll_mean out, c_humidity_detrended out)"
    "c_temperature_z out = zscore_column ids (c_temperature_detrended out)"
    "c_humidity_z out = zscore_column ids (c_humidity_detrended out)"
  using assms by (auto simp: normalize_sensors_def Let_def split: sum.splits prod.splits)

lemma prepare_Inr:
  assumes "prepare argsort df = Inr out"
  shows "normalize_sensors (map timestamp (sort_values argsort (rows df)))
           (map sensor_id (sort_values argsort (rows df)))
           (map (\<lambda>r. to_numeric (temperature r)) (sort_values argsort (rows df)))
           (map (\<lambda>r. to_numeric (humidity r)) (sort_values argsort (rows df))) = Inr out"
  using assms
  by (auto simp: prepare_def parse_and_sort_def ensure_numeric_def split: sum.splits prod.splits)

lemma normalize_sensors_total:
  assumes "ids \<noteq> []"
  shows "\<exists>out. normalize_sensors ts ids traw hraw = Inr out"
  using assms by (simp add: normalize_sensors_def Let_def drift_columns_eq)

lemma normalize_sensors_Nil: "normalize_sensors ts [] traw hraw = Inl (''ValueError'', ''No objects to concatenate'')"
  by (simp add: normalize_sensors_def Let_def drift_columns_Nil)

text \<open>With all four columns and at least one row the script returns a table.\<close>
lemma prepare_total:
  assumes "set all_columns \<subseteq> set (columns df)" and "sort_values argsort (rows df) \<noteq> []"
  shows "\<exists>out. prepare argsort df = Inr out"
proof -
  have c: "''timestamp'' \<in> set (columns df)" "''sensor_id'' \<in> set (columns df)"
    "''temperature'' \<in> set (columns df)" "''humidity'' \<in> set (columns df)"
    using assms(1) by (auto simp: all_columns_def)
  have "map sensor_id (sort_values argsort (rows df)) \<noteq> []" using assms(2) by simp
  from normalize_sensors_total[OF this] show ?thesis
    using c by (simp add: prepare_def parse_and_sort_def ensure_numeric_def getitem_def)
qed

section \<open>The financial series\<close>

lemma length_shift [simp]: "length (shift k xs) = length xs"
  by (simp add: shift_def)

lemma shift_nth: "i < length xs \<Longrightarrow> shift k xs ! i = (if i < k then None else xs ! (i - k))"
  by (auto simp: shift_def nth_append min_def)

lemma length_pct_change [simp]: "length (pct_change k xs) = length xs"
  by (simp add: pct_change_def)

lemma pct_change_nth:
  "i < length xs \<Longrightarrow>
   pct_change k xs ! i = fl_sub_real (fl_div (xs ! i) (if i < k then None else xs ! (i - k))) 1"
  by (simp add: pct_change_def shift_nth)

lemma pct_change_zero_prev:
  assumes "k \<le> i" "i < length xs" "xs ! (i - k) = Some 0" "xs ! i = Some c" "c \<noteq> 0"
  shows "pct_change k xs ! i = (if 0 < c then PInf else NInf)"
  using assms by (simp add: pct_change_nth fl_div_def)

lemma pct_change_first:
  assumes "i < k" "i < length xs"
  shows "pct_change k xs ! i = NaN"
  using assms by (simp add: pct_change_nth fl_div_def split: option.splits)

lemma length_is_outlier [simp]: "length (is_outlier xs) = length xs"
  by (simp add: is_outlier_def case_prod_beta)

lemma outlier_bounds_Some:
  assumes "quantile xs 0.25 = Some q1" "quantile xs 0.75 = Some q3"
  shows "outlier_bounds xs = (Some (q1 - 1.5 * (q3 - q1)), Some (q3 + 1.5 * (q3 - q1)))"
  using assms by (simp add: outlier_bounds_def num_sub_def num_add_def num_mul_def)

lemma quantile_None_iff: "quantile xs q = None \<longleftrightarrow> dropna xs = []"
  by (simp add: quantile_def Let_def sort_Nil_iff)

lemma is_outlier_nth:
  assumes "i < length xs"
  shows "is_outlier xs ! i \<longleftrightarrow>
     (\<exists>x q1 q3. xs ! i = Some x \<and> quantile xs 0.25 = Some q1 \<and> quantile xs 0.75 = Some q3 \<and>
        (x < q1 - 1.5 * (q3 - q1) \<or> q3 + 1.5 * (q3 - q1) < x))"
proof (cases "dropna xs = []")
  case True
  then have "quantile xs 0.25 = None" "quantile xs 0.75 = None"
    by (simp_all add: quantile_None_iff)
  then show ?thesis using assms
    by (simp add: is_outlier_def outlier_bounds_def num_sub_def num_add_def num_mul_def num_less_def
        split: option.splits)
next
  case False
  then obtain q1 q3 where q: "quantile xs 0.25 = Some q1" "quantile xs 0.75 = Some q3"
    using quantile_None_iff[of xs] by (metis not_None_eq)
  show ?thesis using assms q
    by (auto simp: is_outlier_def outlier_bounds_Some[OF q] num_less_def split: option.splits)
qed

lemma np_log1p_cases:
  "np_log1p (Some x) = (if - 1 < x then Fin (ln (1 + x)) else if x = - 1 then NInf else NaN)"
  by (simp add: np_log1p_def)

lemma preprocess_Inr:
  assumes "preprocess argsort df = Inr out"
  shows "p_ret_1d out = pct_change 1 (p_closing_price out)"
    "p_ret_7d out = pct_change 7 (p_closing_price out)"
    "p_volume_log out = map np_log1p (p_volume out)"
    "p_is_outlier out = is_outlier (p_closing_price out)"
  using assms by (auto simp: preprocess_def Let_def split: sum.splits)

section \<open>Runs on the example frames\<close>

lemmas run_defs = impute_column_def fill_median_def groupby_transform_def take_rows_def ffill_def
      set_column_def transform_median_def median_def dropna_def List.map_filter_def upt_rec
      drift_columns_def remove_drift_def rolling_mean_def window_at_def
      ROLL_WINDOW_def mean_def pd_concat_def sort_index_def num_sub_def Let_def
      zscore_column_def zscore_group_def std_def loc_assign_def power2_eq_square real_sqrt_divide
      groupby_def group_index_def

lemma sort_values_df_w: "sort_values stable_argsort (rows df_w) = 
   [\<lparr> timestamp = 1, sensor_id = ''A'', temperature = Num 1, humidity = Empty \<rparr>,
    \<lparr> timestamp = 2, sensor_id = ''B'', temperature = Text ''bad'', humidity = Num 50 \<rparr>,
    \<lparr> timestamp = 3, sensor_id = ''A'', temperature = Num 3, humidity = Num 40 \<rparr>]"
  by (simp add: sort_values_def stable_argsort_def df_w_def upt_rec)

lemma normalize_w: "normalize_sensors [1, 2, 3] [''A'', ''B'', ''A''] [Some 1, None, Some 3] [None, Some 50, Some 40] = Inr out_w"
  unfolding normalize_sensors_def out_w_def
  by (simp add: run_defs factorize_def get_dummies_def)

lemma prepare_df_w: "prepare stable_argsort df_w = Inr out_w"
  unfolding prepare_def parse_and_sort_def ensure_numeric_def sort_values_df_w
  by (simp add: getitem_def df_w_def all_columns_def normalize_w)




section \<open>Properties of the sensor script\<close>

lemma prepare_columns:
  assumes "prepare argsort df = Inr out"
  shows "length (c_temperature_raw out) = length (c_sensor_id out)"
    "length (c_humidity_raw out) = length (c_sensor_id out)"
    "c_temperature out = impute_column (c_sensor_id out) (c_temperature_raw out)"
    "c_humidity out = impute_column (c_sensor_id out) (c_humidity_raw out)"
    "drift_columns (c_sensor_id out) (impute_column (c_sensor_id out) (c_temperature_raw out))
       = Inr (c_temperature_roll_mean out, c_temperature_detrended out)"
    "drift_columns (c_sensor_id out) (impute_column (c_sensor_id out) (c_humidity_raw out))
       = Inr (c_humidity_roll_mean out, c_humidity_detrended out)"
    "c_temperature_z out = zscore_column (c_sensor_id out) (c_temperature_detrended out)"
    "c_humidity_z out = zscore_column (c_sensor_id out) (c_humidity_detrended out)"
proof -
  note n = normalize_sensors_Inr[OF prepare_Inr[OF assms]]
  show "length (c_temperature_raw out) = length (c_sensor_id out)" by (simp add: n(2,3))
  show "length (c_humidity_raw out) = length (c_sensor_id out)" by (simp add: n(2,4))
  show "c_temperature out = impute_column (c_sensor_id out) (c_temperature_raw out)" by (simp add: n(2,3,5))
  show "c_humidity out = impute_column (c_sensor_id out) (c_humidity_raw out)" by (simp add: n(2,4,6))
  show "drift_columns (c_sensor_id out) (impute_column (c_sensor_id out) (c_temperature_raw out))
       = Inr (c_temperature_roll_mean out, c_temperature_detrended out)"
    using n(7) by (simp add: n(2,3))
  show "drift_columns (c_sensor_id out) (impute_column (c_sensor_id out) (c_humidity_raw out))
       = Inr (c_humidity_roll_mean out, c_humidity_detrended out)"
    using n(8) by (simp add: n(2,4))
  show "c_temperature_z out = zscore_column (c_sensor_id out) (c_temperature_detrended out)"
    using n(9) by (simp add: n(2))
  show "c_humidity_z out = zscore_column (c_sensor_id out) (c_humidity_detrended out)"
    using n(10) by (simp add: n(2))
qed



lemma group_w_A: "group_index [''A'', ''B'', ''A''] ''A'' = [0, 2]"
  by (simp add: group_index_def upt_rec)

lemma group_w_B: "group_index [''A'', ''B'', ''A''] ''B'' = [1]"
  by (simp add: group_index_def upt_rec)



lemma mean_present: "vs \<noteq> [] \<Longrightarrow> mean (map Some vs) = Some (sum_list vs / real (length vs))"
  by (simp add: mean_def)

lemma snd_remove_drift_nth:
  "i < length xs \<Longrightarrow> snd (remove_drift xs w) ! i = mean (map (\<lambda>j. xs ! j) [Suc i - w..<Suc i])"
  by (simp add: remove_drift_def Let_def rolling_mean_nth window_at_conv del: upt_Suc)

lemma snd_remove_drift_first:
  "1 \<le> w \<Longrightarrow> xs \<noteq> [] \<Longrightarrow> snd (remove_drift xs w) ! 0 = xs ! 0"
  by (simp add: remove_drift_def Let_def rolling_mean_first)

lemma roll_rule:
  assumes "r = snd (remove_drift g ROLL_WINDOW)"
  shows "length r = length g \<and>
     (\<forall>i<length g. r ! i = mean (map (\<lambda>j. g ! j) [Suc i - ROLL_WINDOW..<Suc i])
                  \<and> length [Suc i - ROLL_WINDOW..<Suc i] = min ROLL_WINDOW (Suc i)) \<and>
     (g \<noteq> [] \<longrightarrow> r ! 0 = g ! 0)"
proof -
  have "length [Suc i - ROLL_WINDOW..<Suc i] = min ROLL_WINDOW (Suc i)" for i
    by (simp del: upt_Suc)
  moreover have "length r = length g" using assms by simp
  moreover have "\<forall>i<length g. r ! i = mean (map (\<lambda>j. g ! j) [Suc i - ROLL_WINDOW..<Suc i])"
    using assms by (simp add: snd_remove_drift_nth del: upt_Suc)
  moreover have "g \<noteq> [] \<longrightarrow> r ! 0 = g ! 0"
    using assms ROLL_WINDOW_pos by (simp add: snd_remove_drift_first)
  ultimately show ?thesis by blast
qed

text \<open>
  Claim C2.  For every sensor \<open>k\<close> and both value columns, the imputed column of the
  sensor is the two-pass imputation of its raw column: each entry becomes the last present
  entry at or before its row within the sensor (forward fill), and what is still missing
  (leading entries with no earlier value) becomes the median of the sensor's forward-filled
  column.  On one sensor's readings 20, NaN, 22, 21, NaN the result is 20, 20, 22, 21, 21.
\<close>
theorem imputation_two_pass:
  assumes "prepare argsort df = Inr out"
  shows "group_column (c_sensor_id out) (c_temperature out) k
           = two_pass_spec (group_column (c_sensor_id out) (c_temperature_raw out) k)
       \<and> group_column (c_sensor_id out) (c_humidity out) k
           = two_pass_spec (group_column (c_sensor_id out) (c_humidity_raw out) k)
       \<and> impute_column [''A'', ''A'', ''A'', ''A'', ''A''] [Some 20, None, Some 22, Some 21, None]
           = [Some 20, Some 20, Some 22, Some 21, Some 21]"
proof -
  note p = prepare_columns[OF assms]
  have "group_column (c_sensor_id out) (c_temperature out) k
           = two_pass_spec (group_column (c_sensor_id out) (c_temperature_raw out) k)"
    unfolding p(3) by (rule column_pipeline(1)[OF p(1) p(5)])
  moreover have "group_column (c_sensor_id out) (c_humidity out) k
           = two_pass_spec (group_column (c_sensor_id out) (c_humidity_raw out) k)"
    unfolding p(4) by (rule column_pipeline(1)[OF p(2) p(6)])
  moreover have "impute_column [''A'', ''A'', ''A'', ''A'', ''A''] [Some 20, None, Some 22, Some 21, None]
           = [Some 20, Some 20, Some 22, Some 21, Some 21]"
    by (simp add: run_defs)
  ultimately show ?thesis by simp
qed

theorem imputation_two_pass_witness:
  "prepare stable_argsort df_w = Inr out_w
   \<and> group_column (c_sensor_id out_w) (c_humidity_raw out_w) ''A'' = [None, Some 40]
   \<and> group_column (c_sensor_id out_w) (c_humidity out_w) ''A'' = [Some 40, Some 40]
   \<and> group_column (c_sensor_id out_w) (c_temperature_raw out_w) ''B'' = [None]
   \<and> group_column (c_sensor_id out_w) (c_temperature out_w) ''B'' = [None]"
proof -
  have a: "group_column (c_sensor_id out_w) (c_humidity_raw out_w) ''A'' = [None, Some 40]"
    by (simp add: out_w_def group_column_def group_w_A take_rows_def)
  have b: "group_column (c_sensor_id out_w) (c_temperature_raw out_w) ''B'' = [None]"
    by (simp add: out_w_def group_column_def group_w_B take_rows_def)
  have sa: "two_pass_spec [None, Some 40] = [Some 40, Some 40]"
    by (simp add: two_pass_spec_def ffill_spec_def last_present_def median_def upt_rec)
  have sb: "two_pass_spec [None] = [None]"
    by (simp add: two_pass_spec_def ffill_spec_def last_present_def median_def upt_rec)
  from imputation_two_pass[OF prepare_df_w, of "''A''"]
  have "group_column (c_sensor_id out_w) (c_humidity out_w) ''A'' = [Some 40, Some 40]"
    by (simp add: a sa)
  moreover from imputation_two_pass[OF prepare_df_w, of "''B''"]
  have "group_column (c_sensor_id out_w) (c_temperature out_w) ''B'' = [None]"
    by (simp add: b sb)
  ultimately show ?thesis by (simp add: prepare_df_w a b)
qed

text \<open>
  Claim C3.  For every sensor \<open>k\<close> and both value columns, the rolling mean at row \<open>i\<close>
  of the sensor is the mean of its imputed values on the trailing window of rows
  \<open>i + 1 - ROLL_WINDOW .. i\<close>, which holds \<open>min ROLL_WINDOW (i + 1)\<close> rows (a shrinking
  window with at least one row at the start); at the sensor's first row it equals the imputed
  value.  The same holds of \<open>remove_drift\<close> for any window \<open>w\<close>; the mean of present values
  is their sum over their number.  Imputed values 20, 20, 22, 21, 21 with window 3 give
  20, 20, 62/3, 21, 64/3, that is 20.67 and 21.33 to two decimals.
\<close>
theorem rolling_mean_per_sensor:
  assumes "prepare argsort df = Inr out"
  shows "(let g = group_column (c_sensor_id out) (c_temperature out) k;
              r = group_column (c_sensor_id out) (c_temperature_roll_mean out) k
          in length r = length g \<and>
             (\<forall>i<length g. r ! i = mean (map (\<lambda>j. g ! j) [Suc i - ROLL_WINDOW..<Suc i])
                          \<and> length [Suc i - ROLL_WINDOW..<Suc i] = min ROLL_WINDOW (Suc i)) \<and>
             (g \<noteq> [] \<longrightarrow> r ! 0 = g ! 0))
       \<and> (let g = group_column (c_sensor_id out) (c_humidity out) k;
              r = group_column (c_sensor_id out) (c_humidity_roll_mean out) k
          in length r = length g \<and>
             (\<forall>i<length g. r ! i = mean (map (\<lambda>j. g ! j) [Suc i - ROLL_WINDOW..<Suc i])
                          \<and> length [Suc i - ROLL_WINDOW..<Suc i] = min ROLL_WINDOW (Suc i)) \<and>
             (g \<noteq> [] \<longrightarrow> r ! 0 = g ! 0))
       \<and> (i < length xs \<longrightarrow>
            snd (remove_drift xs w) ! i = mean (map (\<lambda>j. xs ! j) [Suc i - w..<Suc i]))
       \<and> (1 \<le> w \<and> xs \<noteq> [] \<longrightarrow> snd (remove_drift xs w) ! 0 = xs ! 0)
       \<and> (vs \<noteq> [] \<longrightarrow> mean (map Some vs) = Some (sum_list vs / real (length vs)))
       \<and> snd (remove_drift [Some 20, Some 20, Some 22, Some 21, Some 21] 3)
            = [Some 20, Some 20, Some (62 / 3), Some 21, Some (64 / 3)]
       \<and> \<bar>62 / 3 - 20.67\<bar> < (0.005 :: real) \<and> \<bar>64 / 3 - 21.33\<bar> < (0.005 :: real)"
proof -
  note p = prepare_columns[OF assms]
  have t: "let g = group_column (c_sensor_id out) (c_temperature out) k;
              r = group_column (c_sensor_id out) (c_temperature_roll_mean out) k
          in length r = length g \<and>
             (\<forall>i<length g. r ! i = mean (map (\<lambda>j. g ! j) [Suc i - ROLL_WINDOW..<Suc i])
                          \<and> length [Suc i - ROLL_WINDOW..<Suc i] = min ROLL_WINDOW (Suc i)) \<and>
             (g \<noteq> [] \<longrightarrow> r ! 0 = g ! 0)"
    unfolding Let_def p(3) by (rule roll_rule) (rule column_pipeline(2)[OF p(1) p(5)])
  have h: "let g = group_column (c_sensor_id out) (c_humidity out) k;
              r = group_column (c_sensor_id out) (c_humidity_roll_mean out) k
          in length r = length g \<and>
             (\<forall>i<length g. r ! i = mean (map (\<lambda>j. g ! j) [Suc i - ROLL_WINDOW..<Suc i])
                          \<and> length [Suc i - ROLL_WINDOW..<Suc i] = min ROLL_WINDOW (Suc i)) \<and>
             (g \<noteq> [] \<longrightarrow> r ! 0 = g ! 0)"
    unfolding Let_def p(4) by (rule roll_rule) (rule column_pipeline(2)[OF p(2) p(6)])
  have e: "snd (remove_drift [Some 20, Some 20, Some 22, Some 21, Some 21] 3)
            = [Some 20, Some 20, Some (62 / 3), Some 21, Some (64 / 3)]"
    by (simp add: remove_drift_def rolling_mean_def window_at_def mean_def dropna_def
        List.map_filter_def upt_rec Let_def)
  have r: "\<bar>62 / 3 - 20.67\<bar> < (0.005 :: real) \<and> \<bar>64 / 3 - 21.33\<bar> < (0.005 :: real)"
    by simp
  show ?thesis
    using t h e r snd_remove_drift_nth[of i xs w] snd_remove_drift_first[of w xs] mean_present[of vs]
    by (simp only: simp_thms) blast
qed

theorem rolling_mean_per_sensor_witness:
  "prepare stable_argsort df_w = Inr out_w
   \<and> group_column (c_sensor_id out_w) (c_temperature out_w) ''A'' = [Some 1, Some 3]
   \<and> group_column (c_sensor_id out_w) (c_temperature_roll_mean out_w) ''A'' ! 0 = Some 1
   \<and> group_column (c_sensor_id out_w) (c_temperature_roll_mean out_w) ''A'' ! 1 = Some 2
   \<and> snd (remove_drift [Some 20, Some 20, Some 22, Some 21, Some 21] 3) ! 2 = Some (62 / 3)"
proof -
  have g: "group_column (c_sensor_id out_w) (c_temperature out_w) ''A'' = [Some 1, Some 3]"
    by (simp add: out_w_def group_column_def group_w_A take_rows_def)
  note z = rolling_mean_per_sensor[OF prepare_df_w, of "''A''" 2
      "[Some 20, Some 20, Some 22, Some 21, Some 21]" 3 "[1, 3]"]
  have m: "mean [Some 1, Some 3] = Some 2" using z by simp
  from z have all: "\<forall>i<2. group_column (c_sensor_id out_w) (c_temperature_roll_mean out_w) ''A'' ! i
        = mean (map (\<lambda>j. [Some 1, Some 3] ! j) [Suc i - ROLL_WINDOW..<Suc i])"
    unfolding Let_def g by simp
  have r0: "group_column (c_sensor_id out_w) (c_temperature_roll_mean out_w) ''A'' ! 0 = Some 1"
    using z unfolding Let_def g by simp
  have "group_column (c_sensor_id out_w) (c_temperature_roll_mean out_w) ''A'' ! 1
        = mean (map (\<lambda>j. [Some 1, Some 3] ! j) [Suc 1 - ROLL_WINDOW..<Suc 1])"
    using all by simp
  then have r1: "group_column (c_sensor_id out_w) (c_temperature_roll_mean out_w) ''A'' ! 1 = Some 2"
    by (simp add: ROLL_WINDOW_def upt_rec m)
  have w: "mean (map (\<lambda>j. [Some 20, Some 20, Some 22, Some 21, Some 21] ! j) [Suc 2 - 3..<Suc 2])
           = Some (62 / 3)"
    by (simp add: upt_rec mean_def dropna_def List.map_filter_def)
  from z have "snd (remove_drift [Some 20, Some 20, Some 22, Some 21, Some 21] 3) ! 2 = Some (62 / 3)"
    by (simp add: w del: upt_Suc)
  with r0 r1 show ?thesis by (simp add: prepare_df_w g)
qed









lemma group_w2_A: "group_index [''C'', ''A'', ''B'', ''A''] ''A'' = [1, 3]"
  by (simp add: group_index_def upt_rec)








text \<open>
  Claim C6 (the script does not do this).  On a table with the full header and zero rows
  the loop over the sensors produces no series and \<open>pd.concat\<close> raises \<open>ValueError\<close>, where
  the claim asks for an empty output table.  The sibling script for the financial series
  returns empty columns on an empty table.
\<close>
theorem empty_table_raises:
  "prepare stable_argsort df_empty = Inl (''ValueError'', ''No objects to concatenate'')
   \<and> (case preprocess stable_argsort quotes_empty of Inl e \<Rightarrow> False | Inr out \<Rightarrow> p_date out = [] \<and> p_is_outlier out = [])"
proof -
  have "sort_values stable_argsort (rows df_empty) = []"
    by (simp add: sort_values_def stable_argsort_def df_empty_def)
  then have "prepare stable_argsort df_empty = Inl (''ValueError'', ''No objects to concatenate'')"
    unfolding prepare_def parse_and_sort_def ensure_numeric_def
    by (simp add: getitem_def df_empty_def all_columns_def normalize_sensors_Nil)
  moreover have "case preprocess stable_argsort quotes_empty of Inl e \<Rightarrow> False | Inr out \<Rightarrow> p_date out = [] \<and> p_is_outlier out = []"
    by (simp add: preprocess_def quotes_empty_def getitem_def stable_argsort_def Let_def
        impute_series_def bfill_def ffill_def is_outlier_def case_prod_beta)
  ultimately show ?thesis by simp
qed




section \<open>Properties of the financial script\<close>

lemma sorted_quotes_w: "map (\<lambda>i. q_rows quotes_w ! i) (stable_argsort (map date (q_rows quotes_w)))
   = [\<lparr> date = 1, closing_price = Num 0, volume = Num 0 \<rparr>,
      \<lparr> date = 2, closing_price = Num 5, volume = Num (- 1) \<rparr>,
               \<lparr> date = 3, closing_price = Num 10, volume = Num (- 2) \<rparr>,
               \<lparr> date = 4, closing_price = Num 12, volume = Num 1 \<rparr>,
               \<lparr> date = 5, closing_price = Num 9, volume = Empty \<rparr>,
               \<lparr> date = 6, closing_price = Num 100, volume = Num 3 \<rparr>,
               \<lparr> date = 7, closing_price = Num 11, volume = Text ''x'' \<rparr>,
               \<lparr> date = 8, closing_price = Num 3, volume = Num 0 \<rparr>]"
  by (simp add: quotes_w_def stable_argsort_def upt_rec)

lemma impute_close_w: "impute_series [Some 0, Some 5, Some 10, Some 12, Some 9, Some 100, Some 11, Some 3]
   = [Some 0, Some 5, Some 10, Some 12, Some 9, Some 100, Some 11, Some 3]"
  by (simp add: impute_series_def bfill_def ffill_def)

lemma impute_vol_w: "impute_series [Some 0, Some (- 1), Some (- 2), Some 1, None, Some 3, None, Some 0]
   = [Some 0, Some (- 1), Some (- 2), Some 1, Some 1, Some 3, Some 3, Some 0]"
  by (simp add: impute_series_def bfill_def ffill_def)

lemma ret_1d_w: "pct_change 1 [Some 0, Some 5, Some 10, Some 12, Some 9, Some 100, Some 11, Some 3]
   = [NaN, PInf, Fin 1, Fin (1 / 5), Fin (- (1 / 4)), Fin (91 / 9), Fin (- (89 / 100)), Fin (- (8 / 11))]"
  by (simp add: pct_change_def shift_def fl_div_def)

lemma ret_7d_w: "pct_change 7 [Some 0, Some 5, Some 10, Some 12, Some 9, Some 100, Some 11, Some 3]
   = [NaN, NaN, NaN, NaN, NaN, NaN, NaN, PInf]"
  by (simp add: pct_change_def shift_def fl_div_def numeral_eq_Suc)

lemma quantiles_w:
  "quantile [Some 0, Some 5, Some 10, Some 12, Some 9, Some 100, Some 11, Some 3] 0.25 = Some (9 / 2)"
  "quantile [Some 0, Some 5, Some 10, Some 12, Some 9, Some 100, Some 11, Some 3] 0.75 = Some (45 / 4)"
  by (simp_all add: quantile_def lerp_at_def dropna_def List.map_filter_def Let_def)

lemma outlier_w: "is_outlier [Some 0, Some 5, Some 10, Some 12, Some 9, Some 100, Some 11, Some 3]
   = [False, False, False, False, False, True, False, False]"
  unfolding is_outlier_def outlier_bounds_def quantiles_w Let_def
  by (simp add: num_sub_def num_add_def num_mul_def num_less_def)

lemma preprocess_quotes_w: "preprocess stable_argsort quotes_w = Inr out_q"
  unfolding preprocess_def sorted_quotes_w Let_def
  by (simp add: getitem_def quotes_w_def out_q_def impute_close_w impute_vol_w
      ret_1d_w[unfolded One_nat_def] ret_7d_w outlier_w np_log1p_def)

lemma quantiles_b:
  "quantile [Some 0, Some 4, Some 4, Some 8, Some 14] 0.25 = Some 4"
  "quantile [Some 0, Some 4, Some 4, Some 8, Some 14] 0.75 = Some 8"
  "quantile [Some 0, Some 4, Some 4, Some 8, Some 15] 0.25 = Some 4"
  "quantile [Some 0, Some 4, Some 4, Some 8, Some 15] 0.75 = Some 8"
  by (simp_all add: quantile_def lerp_at_def dropna_def List.map_filter_def Let_def)

lemma bounds_b: "outlier_bounds [Some 0, Some 4, Some 4, Some 8, Some 14] = (Some (- 2), Some 14)"
  unfolding outlier_bounds_def quantiles_b Let_def
  by (simp add: num_sub_def num_add_def num_mul_def)

lemma outlier_b: "is_outlier [Some 0, Some 4, Some 4, Some 8, Some 14] = [False, False, False, False, False]"
  unfolding is_outlier_def bounds_b by (simp add: num_less_def)

lemma outlier_b1: "is_outlier [Some 0, Some 4, Some 4, Some 8, Some 15] = [False, False, False, False, True]"
  unfolding is_outlier_def outlier_bounds_def quantiles_b Let_def
  by (simp add: num_sub_def num_add_def num_mul_def num_less_def)

lemma lerp_at_mono:
  assumes srt: "sorted s" and p0: "0 \<le> pos" and pp: "pos \<le> pos'"
    and pn: "pos' \<le> real (length s - 1)" and ne: "s \<noteq> []"
  shows "lerp_at s pos \<le> lerp_at s pos'"
proof -
  define lo where "lo = nat \<lfloor>pos\<rfloor>"
  define lo' where "lo' = nat \<lfloor>pos'\<rfloor>"
  have p0': "0 \<le> pos'" using p0 pp by simp
  have rl: "real lo = of_int \<lfloor>pos\<rfloor>" using p0 by (simp add: lo_def)
  have rl': "real lo' = of_int \<lfloor>pos'\<rfloor>" using p0' by (simp add: lo'_def)
  have ll: "lo \<le> lo'" unfolding lo_def lo'_def using pp by (simp add: floor_mono nat_mono)
  have fl: "\<lfloor>pos'\<rfloor> \<le> int (length s - 1)" using pn by (simp add: floor_le_iff)
  have "0 < length s" using ne by simp
  with fl have "nat \<lfloor>pos'\<rfloor> < length s" by linarith
  then have ln: "lo' < length s" by (simp add: lo'_def)
  have f0: "0 \<le> pos - real lo" "pos - real lo < 1" unfolding rl by linarith+
  have f0': "0 \<le> pos' - real lo'" unfolding rl' by linarith
  have av: "lerp_at s pos = (if Suc lo < length s
      then s ! lo + (pos - real lo) * (s ! Suc lo - s ! lo) else s ! lo)"
    by (simp add: lerp_at_def Let_def lo_def)
  have bv: "lerp_at s pos' = (if Suc lo' < length s
      then s ! lo' + (pos' - real lo') * (s ! Suc lo' - s ! lo') else s ! lo')"
    by (simp add: lerp_at_def Let_def lo'_def)
  have step: "Suc j < length s \<Longrightarrow> s ! j \<le> s ! Suc j" for j
    using srt by (simp add: sorted_nth_mono)
  have b_lo: "s ! lo' \<le> lerp_at s pos'"
    unfolding bv using f0' step[of lo'] by (simp add: mult_nonneg_nonneg)
  show ?thesis
  proof (cases "lo = lo'")
    case True
    show ?thesis
    proof (cases "Suc lo < length s")
      case t: True
      have "(pos - real lo) * (s ! Suc lo - s ! lo) \<le> (pos' - real lo) * (s ! Suc lo - s ! lo)"
        using pp step[OF t] by (intro mult_right_mono) simp_all
      then show ?thesis using t True by (simp add: av bv)
    next
      case False
      then show ?thesis using True by (simp add: av bv)
    qed
  next
    case False
    then have lt: "Suc lo \<le> lo'" using ll by simp
    have sl: "Suc lo < length s" using lt ln by linarith
    have "(pos - real lo) * (s ! Suc lo - s ! lo) \<le> 1 * (s ! Suc lo - s ! lo)"
      using f0(2) step[OF sl] by (intro mult_right_mono) simp_all
    then have "lerp_at s pos \<le> s ! Suc lo" using sl by (simp add: av)
    also have "\<dots> \<le> s ! lo'" using srt lt ln by (simp add: sorted_nth_mono)
    also have "\<dots> \<le> lerp_at s pos'" by (rule b_lo)
    finally show ?thesis .
  qed
qed

lemma quantile_mono:
  assumes q: "0 \<le> q" "q \<le> q'" "q' \<le> 1"
    and a: "quantile xs q = Some a" and b: "quantile xs q' = Some b"
  shows "a \<le> b"
proof -
  let ?s = "sort (dropna xs)"
  have ne: "?s \<noteq> []"
    using a by (auto simp: quantile_def Let_def split: if_splits)
  have av: "a = lerp_at ?s (q * real (length ?s - 1))"
    using a ne by (simp add: quantile_def Let_def)
  have bv: "b = lerp_at ?s (q' * real (length ?s - 1))"
    using b ne by (simp add: quantile_def Let_def)
  have "q' * real (length ?s - 1) \<le> 1 * real (length ?s - 1)"
    using q(3) by (intro mult_right_mono) simp_all
  then have pn: "q' * real (length ?s - 1) \<le> real (length ?s - 1)" by simp
  show ?thesis
    unfolding av bv
  proof (rule lerp_at_mono[OF _ _ _ pn ne])
    show "sorted ?s" by simp
    show "0 \<le> q * real (length ?s - 1)" using q(1) by simp
    show "q * real (length ?s - 1) \<le> q' * real (length ?s - 1)"
      using q(2) by (intro mult_right_mono) simp_all
  qed
qed

lemma quartiles_ordered:
  assumes "quantile xs 0.25 = Some q1" "quantile xs 0.75 = Some q3"
  shows "q1 \<le> q3"
  using quantile_mono[OF _ _ _ assms] by simp

text \<open>
  Claim C8.  With Q1 and Q3 the 0.25 and 0.75 quantiles of the closing prices and
  IQR = Q3 - Q1, row \<open>i\<close> is flagged exactly when its closing price is strictly below
  Q1 - 1.5 IQR or strictly above Q3 + 1.5 IQR; a price equal to either bound is not
  flagged.  For the prices 0, 4, 4, 8, 14 the bounds are -2 and 14 and nothing is flagged;
  with 15 in place of 14 the last row is flagged.
\<close>
theorem iqr_outlier_flag:
  assumes "preprocess argsort df = Inr out" and "i < length (p_closing_price out)"
  shows "(p_is_outlier out ! i \<longleftrightarrow>
           (\<exists>x q1 q3. p_closing_price out ! i = Some x
              \<and> quantile (p_closing_price out) 0.25 = Some q1
              \<and> quantile (p_closing_price out) 0.75 = Some q3
              \<and> (x < q1 - 1.5 * (q3 - q1) \<or> q3 + 1.5 * (q3 - q1) < x)))
       \<and> (\<forall>x q1 q3. p_closing_price out ! i = Some x
              \<and> quantile (p_closing_price out) 0.25 = Some q1
              \<and> quantile (p_closing_price out) 0.75 = Some q3
              \<and> (x = q1 - 1.5 * (q3 - q1) \<or> x = q3 + 1.5 * (q3 - q1))
              \<longrightarrow> \<not> p_is_outlier out ! i)
       \<and> length (p_is_outlier out) = length (p_closing_price out)
       \<and> outlier_bounds [Some 0, Some 4, Some 4, Some 8, Some 14] = (Some (- 2), Some 14)
       \<and> is_outlier [Some 0, Some 4, Some 4, Some 8, Some 14] = [False, False, False, False, False]
       \<and> is_outlier [Some 0, Some 4, Some 4, Some 8, Some 15] = [False, False, False, False, True]"
proof -
  note p = preprocess_Inr[OF assms(1)]
  have a: "p_is_outlier out ! i \<longleftrightarrow>
           (\<exists>x q1 q3. p_closing_price out ! i = Some x
              \<and> quantile (p_closing_price out) 0.25 = Some q1
              \<and> quantile (p_closing_price out) 0.75 = Some q3
              \<and> (x < q1 - 1.5 * (q3 - q1) \<or> q3 + 1.5 * (q3 - q1) < x))"
    unfolding p(4) by (rule is_outlier_nth[OF assms(2)])
  have b: "\<forall>x q1 q3. p_closing_price out ! i = Some x
              \<and> quantile (p_closing_price out) 0.25 = Some q1
              \<and> quantile (p_closing_price out) 0.75 = Some q3
              \<and> (x = q1 - 1.5 * (q3 - q1) \<or> x = q3 + 1.5 * (q3 - q1))
              \<longrightarrow> \<not> p_is_outlier out ! i"
  proof (intro allI impI notI)
    fix x q1 q3
    assume h: "p_closing_price out ! i = Some x
              \<and> quantile (p_closing_price out) 0.25 = Some q1
              \<and> quantile (p_closing_price out) 0.75 = Some q3
              \<and> (x = q1 - 1.5 * (q3 - q1) \<or> x = q3 + 1.5 * (q3 - q1))"
      and f: "p_is_outlier out ! i"
    from h have h1: "quantile (p_closing_price out) 0.25 = Some q1"
      and h3: "quantile (p_closing_price out) 0.75 = Some q3" by blast+
    have o: "q1 \<le> q3" by (rule quartiles_ordered[OF h1 h3])
    from f h have "x < q1 - 1.5 * (q3 - q1) \<or> q3 + 1.5 * (q3 - q1) < x"
      unfolding a by auto
    with h o show False by argo
  qed
  have c: "length (p_is_outlier out) = length (p_closing_price out)" by (simp add: p(4))
  show ?thesis using a b c bounds_b outlier_b outlier_b1 by blast
qed

theorem iqr_outlier_flag_witness:
  "preprocess stable_argsort quotes_w = Inr out_q
   \<and> quantile (p_closing_price out_q) 0.25 = Some (9 / 2)
   \<and> quantile (p_closing_price out_q) 0.75 = Some (45 / 4)
   \<and> p_closing_price out_q ! 5 = Some 100 \<and> p_is_outlier out_q ! 5
   \<and> p_closing_price out_q ! 3 = Some 12 \<and> \<not> p_is_outlier out_q ! 3"
proof -
  have l: "5 < length (p_closing_price out_q)" "3 < length (p_closing_price out_q)"
    by (simp_all add: out_q_def)
  have q: "quantile (p_closing_price out_q) 0.25 = Some (9 / 2)"
    "quantile (p_closing_price out_q) 0.75 = Some (45 / 4)"
    using quantiles_w by (simp_all add: out_q_def)
  have v: "p_closing_price out_q ! 5 = Some 100" "p_closing_price out_q ! 3 = Some 12"
    by (simp_all add: out_q_def)
  from iqr_outlier_flag[OF preprocess_quotes_w l(1)]
  have "p_is_outlier out_q ! 5 \<longleftrightarrow>
           (\<exists>x q1 q3. p_closing_price out_q ! 5 = Some x
              \<and> quantile (p_closing_price out_q) 0.25 = Some q1
              \<and> quantile (p_closing_price out_q) 0.75 = Some q3
              \<and> (x < q1 - 1.5 * (q3 - q1) \<or> q3 + 1.5 * (q3 - q1) < x))"
    by blast
  moreover have "\<exists>x q1 q3. p_closing_price out_q ! 5 = Some x
              \<and> quantile (p_closing_price out_q) 0.25 = Some q1
              \<and> quantile (p_closing_price out_q) 0.75 = Some q3
              \<and> (x < q1 - 1.5 * (q3 - q1) \<or> q3 + 1.5 * (q3 - q1) < x)"
    by (rule exI[of _ 100], rule exI[of _ "9 / 2"], rule exI[of _ "45 / 4"], unfold v q, simp)
  ultimately have f5: "p_is_outlier out_q ! 5" by simp
  from iqr_outlier_flag[OF preprocess_quotes_w l(2)]
  have "p_is_outlier out_q ! 3 \<longleftrightarrow>
           (\<exists>x q1 q3. p_closing_price out_q ! 3 = Some x
              \<and> quantile (p_closing_price out_q) 0.25 = Some q1
              \<and> quantile (p_closing_price out_q) 0.75 = Some q3
              \<and> (x < q1 - 1.5 * (q3 - q1) \<or> q3 + 1.5 * (q3 - q1) < x))"
    by blast
  moreover have "\<not> (\<exists>x q1 q3. p_closing_price out_q ! 3 = Some x
              \<and> quantile (p_closing_price out_q) 0.25 = Some q1
              \<and> quantile (p_closing_price out_q) 0.75 = Some q3
              \<and> (x < q1 - 1.5 * (q3 - q1) \<or> q3 + 1.5 * (q3 - q1) < x))"
  proof
    assume "\<exists>x q1 q3. p_closing_price out_q ! 3 = Some x
              \<and> quantile (p_closing_price out_q) 0.25 = Some q1
              \<and> quantile (p_closing_price out_q) 0.75 = Some q3
              \<and> (x < q1 - 1.5 * (q3 - q1) \<or> q3 + 1.5 * (q3 - q1) < x)"
    then obtain x q1 q3 where e: "p_closing_price out_q ! 3 = Some x"
      "quantile (p_closing_price out_q) 0.25 = Some q1"
      "quantile (p_closing_price out_q) 0.75 = Some q3"
      "x < q1 - 1.5 * (q3 - q1) \<or> q3 + 1.5 * (q3 - q1) < x" by blast
    from e(1) v(2) have "x = 12" by simp
    moreover from e(2) q(1) have "q1 = 9 / 2" by simp
    moreover from e(3) q(2) have "q3 = 45 / 4" by simp
    ultimately show False using e(4) by argo
  qed
  ultimately have f3: "\<not> p_is_outlier out_q ! 3" by simp
  show ?thesis using f5 f3 q v by (simp only: preprocess_quotes_w simp_thms)
qed

text \<open>
  Claim C9, amended.  The log transform maps a volume \<open>x > -1\<close> to \<open>ln (1 + x)\<close>; for
  \<open>x < -1\<close> and for a missing volume the result is NaN; for \<open>x = -1\<close> it is negative
  infinity.  The transform is total: it yields a value on every row and raises nothing.
\<close>
theorem log1p_domain:
  assumes "preprocess argsort df = Inr out" and "i < length (p_volume out)"
  shows "p_volume_log out ! i =
           (case p_volume out ! i of
              None \<Rightarrow> NaN
            | Some x \<Rightarrow> if - 1 < x then Fin (ln (1 + x)) else if x = - 1 then NInf else NaN)
       \<and> length (p_volume_log out) = length (p_volume out)"
  using assms(2) by (simp add: preprocess_Inr(3)[OF assms(1)] np_log1p_def)

theorem log1p_domain_witness:
  "preprocess stable_argsort quotes_w = Inr out_q
   \<and> p_volume out_q ! 3 = Some 1 \<and> p_volume_log out_q ! 3 = Fin (ln 2)
   \<and> p_volume out_q ! 2 = Some (- 2) \<and> p_volume_log out_q ! 2 = NaN"
proof -
  have l: "3 < length (p_volume out_q)" "2 < length (p_volume out_q)" by (simp_all add: out_q_def)
  have v: "p_volume out_q ! 3 = Some 1" "p_volume out_q ! 2 = Some (- 2)" by (simp_all add: out_q_def)
  from log1p_domain[OF preprocess_quotes_w l(1)] have "p_volume_log out_q ! 3 = Fin (ln 2)"
    unfolding v by simp
  moreover from log1p_domain[OF preprocess_quotes_w l(2)] have "p_volume_log out_q ! 2 = NaN"
    unfolding v by simp
  ultimately show ?thesis using v by (simp only: preprocess_quotes_w simp_thms)
qed

text \<open>
  Claim C9 as stated (missing for every \<open>x \<le> -1\<close>) fails at \<open>x = -1\<close>: \<open>np.log1p(-1.0)\<close> is
  negative infinity, which is not a missing value.
\<close>
theorem log1p_at_minus_one:
  "preprocess stable_argsort quotes_w = Inr out_q
   \<and> p_volume out_q ! 1 = Some (- 1)
   \<and> p_volume_log out_q ! 1 = NInf
   \<and> NInf \<noteq> NaN
   \<and> np_log1p (Some (- 1)) = NInf"
  by (simp add: preprocess_quotes_w out_q_def np_log1p_def)

text \<open>
  Claim C10.  The division of the return features is unguarded: at a row \<open>i \<ge> k\<close>
  (\<open>k\<close> = 1 for \<open>ret_1d\<close>, 7 for \<open>ret_7d\<close>) whose closing price is non-zero while the
  closing price \<open>k\<close> rows earlier is 0, the return is an infinity with the sign of the
  current price, neither missing nor finite.  The witness below is such a series.
\<close>
theorem unguarded_return_division:
  assumes "preprocess argsort df = Inr out" and "i < length (p_closing_price out)"
    and "p_closing_price out ! i = Some c" and "c \<noteq> 0"
  shows "(1 \<le> i \<and> p_closing_price out ! (i - 1) = Some 0 \<longrightarrow>
            p_ret_1d out ! i = (if 0 < c then PInf else NInf))
       \<and> (7 \<le> i \<and> p_closing_price out ! (i - 7) = Some 0 \<longrightarrow>
            p_ret_7d out ! i = (if 0 < c then PInf else NInf))"
  unfolding preprocess_Inr(1,2)[OF assms(1)]
  using pct_change_zero_prev[OF _ assms(2) _ assms(3,4), of 1]
    pct_change_zero_prev[OF _ assms(2) _ assms(3,4), of 7]
  by blast

theorem unguarded_return_division_witness:
  "preprocess stable_argsort quotes_w = Inr out_q
   \<and> p_closing_price out_q ! 0 = Some 0
   \<and> p_closing_price out_q ! 1 = Some 5 \<and> p_ret_1d out_q ! 1 = PInf
   \<and> p_closing_price out_q ! 7 = Some 3 \<and> p_ret_7d out_q ! 7 = PInf"
proof -
  have l: "1 < length (p_closing_price out_q)" "7 < length (p_closing_price out_q)"
    by (simp_all add: out_q_def)
  have v: "p_closing_price out_q ! 0 = Some 0" "p_closing_price out_q ! 1 = Some 5"
    "p_closing_price out_q ! 7 = Some 3"
    by (simp_all add: out_q_def)
  from unguarded_return_division[OF preprocess_quotes_w l(1) v(2)] v(1)
  have "p_ret_1d out_q ! 1 = PInf" by simp
  moreover from unguarded_return_division[OF preprocess_quotes_w l(2) v(3)] v(1)
  have "p_ret_7d out_q ! 7 = PInf" by simp
  ultimately show ?thesis using v by (simp only: preprocess_quotes_w simp_thms)
qed

end
